theory Spec2Isabelle
  imports Complex_Main "HOL-Library.Word"
begin

section \<open>Data model\<close>

text \<open>
  A JavaScript string is a sequence of UTF-16 code units. Word texts, editor contents and
  history snapshots are all such strings. \<open>utf16\<close> embeds an ASCII literal.

  The numbers of a bounding box are the decimal values written in the analysis result,
  rationals. The reconstruction and the zoom of the viewer are first modelled with exact
  arithmetic on these values (\<open>+\<close>, \<open>-\<close>, \<open>*\<close>, \<open>/\<close>, \<open>Math.abs\<close>, \<open>Math.min\<close>,
  \<open>Math.max\<close>, \<open><\<close> without rounding). The binary64 arithmetic of the program, with the
  conversion of the decimals and the rounding of every operation, is modelled further
  below for the test of the grouping loop and for the image overlay.
\<close>

type_synonym js_string = "16 word list"

definition utf16 :: "string \<Rightarrow> js_string" where
  "utf16 s = map of_char s"

text \<open>\<^verbatim>\<open>interface BoundingBox { x; y; width; height }\<close> and
  \<^verbatim>\<open>interface Word { text; boundingBox }\<close> (types.ts). The analysis result is the
  product of \<^verbatim>\<open>JSON.parse\<close> with a type assertion and no validation
  (geminiService.ts), so at run time the property \<^verbatim>\<open>boundingBox\<close> of a word may be
  absent: \<open>None\<close> stands for \<^verbatim>\<open>undefined\<close>.\<close>

record BoundingBox =
  bb_x :: rat
  bb_y :: rat
  bb_width :: rat
  bb_height :: rat

record Word =
  word_text :: js_string
  boundingBox :: "BoundingBox option"

text \<open>Reading a property of \<^verbatim>\<open>undefined\<close> throws a \<^verbatim>\<open>TypeError\<close>.\<close>

datatype error = TypeError

text \<open>\<^verbatim>\<open>useState<{stack: string[], index: number}>\<close> (ResultDisplay).\<close>

record history =
  stack :: "js_string list"
  index :: nat

text \<open>Array indexing \<^verbatim>\<open>xs[i]\<close>: \<^verbatim>\<open>undefined\<close> (here \<open>None\<close>) out of range.\<close>

definition js_nth :: "'a list \<Rightarrow> nat \<Rightarrow> 'a option" where
  "js_nth xs i = (if i < length xs then Some (xs ! i) else None)"

section \<open>Edit history\<close>

text \<open>The state updater run by the debounce timer of \<^verbatim>\<open>handleInput\<close>:
  \<^verbatim>\<open>
  setHistory(prevHistory => {
      if (currentText === prevHistory.stack[prevHistory.index]) return prevHistory;
      const newStack = prevHistory.stack.slice(0, prevHistory.index + 1);
      newStack.push(currentText);
      return { stack: newStack, index: newStack.length - 1 };
  });
  \<close>\<close>

definition commit :: "js_string \<Rightarrow> history \<Rightarrow> history" where
  "commit currentText prevHistory =
     (if js_nth (stack prevHistory) (index prevHistory) = Some currentText then prevHistory
      else let newStack = take (index prevHistory + 1) (stack prevHistory) @ [currentText]
           in \<lparr>stack = newStack, index = length newStack - 1\<rparr>)"

text \<open>\<^verbatim>\<open>canUndo = history.index > 0\<close>,
  \<^verbatim>\<open>canRedo = history.index < history.stack.length - 1\<close>; the subtraction is
  computed in the integers, as in the source.\<close>

definition canUndo :: "history \<Rightarrow> bool" where
  "canUndo h = (index h > 0)"

definition canRedo :: "history \<Rightarrow> bool" where
  "canRedo h = (int (index h) < int (length (stack h)) - 1)"

definition isEdited :: "history \<Rightarrow> bool" where
  "isEdited h = (index h > 0)"

text \<open>The invariant of the history: the cursor points into the snapshot sequence.\<close>

definition history_inv :: "history \<Rightarrow> bool" where
  "history_inv h = (index h < length (stack h))"

section \<open>Diacritics display transform\<close>

text \<open>\<^verbatim>\<open>text.replace(/[\u064B-\u0652\u0640]/g, '')\<close>: the regular expression has no
  \<^verbatim>\<open>u\<close> flag, so it is matched code unit by code unit. \<open>diacriticClass\<close> is the
  character class; \<open>replaceAllClass\<close> is the global replacement of every match (each one
  code unit long) by the empty string, scanning from the left.\<close>

definition diacriticClass :: "16 word \<Rightarrow> bool" where
  "diacriticClass c = ((0x064B \<le> c \<and> c \<le> 0x0652) \<or> c = 0x0640)"

fun replaceAllClass :: "(16 word \<Rightarrow> bool) \<Rightarrow> js_string \<Rightarrow> js_string" where
  "replaceAllClass cls [] = []"
| "replaceAllClass cls (c # cs) =
     (if cls c then replaceAllClass cls cs else c # replaceAllClass cls cs)"

definition removeDiacritics :: "js_string \<Rightarrow> js_string" where
  "removeDiacritics str = replaceAllClass diacriticClass str"

section \<open>Text reconstruction\<close>

text \<open>\<^verbatim>\<open>Array.prototype.sort\<close> with a comparator is a stable sort; the comparator
  may throw, and the exception leaves the sort. It is modelled by a stable insertion sort
  whose comparator returns an error or a number: \<open>a\<close> is placed before the first \<open>b\<close>
  of the sorted rest with \<open>cmp a b \<le> 0\<close>. For the comparators used here, which order
  the words by one coordinate, the result of a stable sort is determined. A list of fewer
  than two elements is returned without any call of the comparator; in a longer list every
  element is passed to the comparator at least once.\<close>

fun insertBy :: "('a \<Rightarrow> 'a \<Rightarrow> error + rat) \<Rightarrow> 'a \<Rightarrow> 'a list \<Rightarrow> error + 'a list" where
  "insertBy cmp a [] = Inr [a]"
| "insertBy cmp a (b # bs) =
     (case cmp a b of
        Inl e \<Rightarrow> Inl e
      | Inr v \<Rightarrow>
          if v \<le> 0 then Inr (a # b # bs)
          else (case insertBy cmp a bs of Inl e \<Rightarrow> Inl e | Inr r \<Rightarrow> Inr (b # r)))"

fun js_sort :: "('a \<Rightarrow> 'a \<Rightarrow> error + rat) \<Rightarrow> 'a list \<Rightarrow> error + 'a list" where
  "js_sort cmp [] = Inr []"
| "js_sort cmp (a # as) =
     (case js_sort cmp as of Inl e \<Rightarrow> Inl e | Inr sortedRest \<Rightarrow> insertBy cmp a sortedRest)"

text \<open>\<^verbatim>\<open>(a, b) => a.boundingBox.y - b.boundingBox.y\<close> and
  \<^verbatim>\<open>(a, b) => b.boundingBox.x - a.boundingBox.x\<close>.\<close>

definition cmpY :: "Word \<Rightarrow> Word \<Rightarrow> error + rat" where
  "cmpY a b =
     (case boundingBox a of
        None \<Rightarrow> Inl TypeError
      | Some ba \<Rightarrow> (case boundingBox b of
                     None \<Rightarrow> Inl TypeError
                   | Some bb \<Rightarrow> Inr (bb_y ba - bb_y bb)))"

definition cmpXDesc :: "Word \<Rightarrow> Word \<Rightarrow> error + rat" where
  "cmpXDesc a b =
     (case boundingBox b of
        None \<Rightarrow> Inl TypeError
      | Some bb \<Rightarrow> (case boundingBox a of
                     None \<Rightarrow> Inl TypeError
                   | Some ba \<Rightarrow> Inr (bb_x bb - bb_x ba)))"

text \<open>\<^verbatim>\<open>box.y + box.height / 2\<close>.\<close>

definition centerY :: "BoundingBox \<Rightarrow> rat" where
  "centerY b = bb_y b + bb_height b / 2"

text \<open>The test of the grouping loop:
  \<^verbatim>\<open>Math.abs(wordCenterY - referenceCenterY) < lineReferenceWord.boundingBox.height * 0.7\<close>.\<close>

definition sameLine :: "BoundingBox \<Rightarrow> BoundingBox \<Rightarrow> bool" where
  "sameLine refBox wordBox =
     (let referenceCenterY = centerY refBox;
          wordCenterY = centerY wordBox
      in \<bar>wordCenterY - referenceCenterY\<bar> < bb_height refBox * 0.7)"

text \<open>The loop \<^verbatim>\<open>for (let i = 1; i < sortedWords.length; i++)\<close>. In the source
  \<^verbatim>\<open>currentLine\<close> is the array that was pushed last onto \<^verbatim>\<open>lines\<close>, so a push onto
  it changes the last line in place. Here \<open>earlier\<close> holds the lines before the current
  one, and the loop returns \<open>earlier @ [currentLine]\<close>.\<close>

fun groupLoop :: "Word list list \<Rightarrow> Word list \<Rightarrow> Word list \<Rightarrow> error + Word list list" where
  "groupLoop earlier currentLine [] = Inr (earlier @ [currentLine])"
| "groupLoop earlier currentLine (word # rest) =
     (case currentLine of
        [] \<Rightarrow> Inl TypeError
      | lineReferenceWord # _ \<Rightarrow>
          (case boundingBox lineReferenceWord of
             None \<Rightarrow> Inl TypeError
           | Some refBox \<Rightarrow>
               (case boundingBox word of
                  None \<Rightarrow> Inl TypeError
                | Some wordBox \<Rightarrow>
                    if sameLine refBox wordBox
                    then groupLoop earlier (currentLine @ [word]) rest
                    else groupLoop (earlier @ [currentLine]) [word] rest)))"

definition groupLines :: "Word list \<Rightarrow> error + Word list list" where
  "groupLines sortedWords =
     (case sortedWords of
        [] \<Rightarrow> Inr []
      | first # rest \<Rightarrow> groupLoop [] [first] rest)"

text \<open>Rendering: one span per word, a text node \<^verbatim>\<open>' '\<close> after every word but the last
  of its line, a text node \<^verbatim>\<open>'\n'\<close> after every line but the last. The editor is
  styled \<^verbatim>\<open>whitespace-pre-wrap\<close>, and its \<^verbatim>\<open>innerText\<close> is taken to be the
  concatenation of these nodes.\<close>

fun renderLine :: "Word list \<Rightarrow> js_string" where
  "renderLine [] = []"
| "renderLine [w] = word_text w"
| "renderLine (w # ws) = word_text w @ [0x20] @ renderLine ws"

fun renderLines :: "Word list list \<Rightarrow> error + js_string" where
  "renderLines [] = Inr []"
| "renderLines (line # rest) =
     (case js_sort cmpXDesc line of
        Inl e \<Rightarrow> Inl e
      | Inr sortedLine \<Rightarrow>
          (case renderLines rest of
             Inl e \<Rightarrow> Inl e
           | Inr below \<Rightarrow>
               Inr (renderLine sortedLine @ (if rest = [] then [] else [0x0A]) @ below)))"

text \<open>The body of the effect up to \<^verbatim>\<open>editorRef.current.innerText\<close>: sort by
  \<open>y\<close>, group into lines, sort every line by descending \<open>x\<close>, render.\<close>

definition reconstruct :: "Word list \<Rightarrow> error + js_string" where
  "reconstruct words =
     (case js_sort cmpY words of
        Inl e \<Rightarrow> Inl e
      | Inr sortedWords \<Rightarrow>
          (case groupLines sortedWords of
             Inl e \<Rightarrow> Inl e
           | Inr lines \<Rightarrow> renderLines lines))"

section \<open>The result session\<close>

text \<open>The state of one \<^verbatim>\<open>ResultDisplay\<close>: the \<^verbatim>\<open>useState\<close> cells
  \<^verbatim>\<open>history\<close>, \<^verbatim>\<open>highlightedWord\<close>, \<^verbatim>\<open>diacriticsVisible\<close>, the ref
  \<^verbatim>\<open>hasEditedSinceLoad\<close>, the \<^verbatim>\<open>innerText\<close> of the editor element, and whether
  the debounce timer of \<^verbatim>\<open>handleInput\<close> is pending.\<close>

record session =
  history :: history
  editorText :: js_string
  hasEditedSinceLoad :: bool
  highlightedWord :: "Word option"
  diacriticsVisible :: bool
  debouncePending :: bool

text \<open>The initial values of the hooks, before the first effect has run.\<close>

definition initialSession :: session where
  "initialSession =
     \<lparr>history = \<lparr>stack = [[]], index = 0\<rparr>, editorText = [],
      hasEditedSinceLoad = False, highlightedWord = None,
      diacriticsVisible = True, debouncePending = False\<rparr>"

text \<open>The effect on \<^verbatim>\<open>[result.words]\<close>, run with the editor element mounted and
  \<^verbatim>\<open>result.words\<close> an array: it rebuilds the editor, replaces the history by the
  single reconstructed snapshot and clears the edit latch. An exception leaves the effect
  before any of the three.\<close>

definition loadResult :: "Word list \<Rightarrow> session \<Rightarrow> error + session" where
  "loadResult words s =
     (case reconstruct words of
        Inl e \<Rightarrow> Inl e
      | Inr initialText \<Rightarrow>
          Inr (s\<lparr>editorText := initialText,
                 history := \<lparr>stack = [initialText], index = 0\<rparr>,
                 hasEditedSinceLoad := False\<rparr>))"

definition handleWordEnter :: "Word \<Rightarrow> session \<Rightarrow> session" where
  "handleWordEnter word s =
     (if hasEditedSinceLoad s then s else s\<lparr>highlightedWord := Some word\<rparr>)"

definition handleWordSpanMouseLeave :: "session \<Rightarrow> session" where
  "handleWordSpanMouseLeave s =
     (if hasEditedSinceLoad s then s else s\<lparr>highlightedWord := None\<rparr>)"

text \<open>An input event of the editor: the browser has already changed the content to
  \<open>newText\<close>. The handler sets the latch on the first edit, clears the highlight and
  restarts the debounce timer.\<close>

definition handleInput :: "js_string \<Rightarrow> session \<Rightarrow> session" where
  "handleInput newText s =
     (let s1 = s\<lparr>editorText := newText\<rparr>;
          s2 = (if \<not> hasEditedSinceLoad s1
                then s1\<lparr>hasEditedSinceLoad := True, highlightedWord := None\<rparr>
                else s1)
      in s2\<lparr>debouncePending := True\<rparr>)"

text \<open>The timer callback, 500 ms after the last input event: it commits the content the
  editor has at that moment.\<close>

definition debounceFires :: "session \<Rightarrow> session" where
  "debounceFires s =
     (if debouncePending s
      then s\<lparr>history := commit (editorText s) (history s), debouncePending := False\<rparr>
      else s)"

text \<open>Assigning \<^verbatim>\<open>undefined\<close> to \<^verbatim>\<open>innerText\<close> stores the string
  \<^verbatim>\<open>"undefined"\<close>.\<close>

definition setInnerText :: "js_string option \<Rightarrow> js_string" where
  "setInnerText v = (case v of Some t \<Rightarrow> t | None \<Rightarrow> utf16 ''undefined'')"

definition handleUndo :: "session \<Rightarrow> session" where
  "handleUndo s =
     (if \<not> canUndo (history s) then s
      else let prev = history s; newIndex = index prev - 1
           in s\<lparr>editorText := setInnerText (js_nth (stack prev) newIndex),
                history := prev\<lparr>index := newIndex\<rparr>\<rparr>)"

definition handleRedo :: "session \<Rightarrow> session" where
  "handleRedo s =
     (if \<not> canRedo (history s) then s
      else let prev = history s; newIndex = index prev + 1
           in s\<lparr>editorText := setInnerText (js_nth (stack prev) newIndex),
                history := prev\<lparr>index := newIndex\<rparr>\<rparr>)"

definition toggleDiacritics :: "session \<Rightarrow> session" where
  "toggleDiacritics s = s\<lparr>diacriticsVisible := \<not> diacriticsVisible s\<rparr>"

text \<open>\<^verbatim>\<open>history.stack[history.index] ?? ''\<close>, stripped when diacritics are hidden.\<close>

definition getTextToProcess :: "session \<Rightarrow> js_string" where
  "getTextToProcess s =
     (let rawText = (case js_nth (stack (history s)) (index (history s)) of
                       Some t \<Rightarrow> t | None \<Rightarrow> [])
      in if diacriticsVisible s then rawText else removeDiacritics rawText)"

text \<open>The events a session receives between two analysis results.\<close>

datatype event =
    WordEnter Word
  | WordLeave
  | Input js_string
  | DebounceFires
  | Undo
  | Redo
  | ToggleDiacritics

fun step :: "event \<Rightarrow> session \<Rightarrow> session" where
  "step (WordEnter w) s = handleWordEnter w s"
| "step WordLeave s = handleWordSpanMouseLeave s"
| "step (Input t) s = handleInput t s"
| "step DebounceFires s = debounceFires s"
| "step Undo s = handleUndo s"
| "step Redo s = handleRedo s"
| "step ToggleDiacritics s = toggleDiacritics s"

definition run :: "event list \<Rightarrow> session \<Rightarrow> session" where
  "run evs s = foldl (\<lambda>s e. step e s) s evs"

section \<open>Viewport zoom\<close>

text \<open>\<^verbatim>\<open>handleZoomIn = () => onScaleChange(Math.min(scale * 1.2, 5))\<close> and
  \<^verbatim>\<open>handleZoomOut = () => onScaleChange(Math.max(scale / 1.2, 0.5))\<close>; the owner of
  the scale stores the value and passes it back as the next \<^verbatim>\<open>scale\<close>.\<close>

definition handleZoomIn :: "rat \<Rightarrow> rat" where
  "handleZoomIn scale = min (scale * 1.2) 5"

definition handleZoomOut :: "rat \<Rightarrow> rat" where
  "handleZoomOut scale = max (scale / 1.2) 0.5"

datatype zoom = ZoomIn | ZoomOut

fun zoomStep :: "zoom \<Rightarrow> rat \<Rightarrow> rat" where
  "zoomStep ZoomIn scale = handleZoomIn scale"
| "zoomStep ZoomOut scale = handleZoomOut scale"

section \<open>Binary64 arithmetic\<close>

text \<open>
  The program computes with IEEE 754 binary64 numbers. A finite binary64 value is a
  rational; \<open>double\<close> adds the two infinities and NaN. The sign of a zero is not
  modelled: none of the operations below, as the program uses them, distinguishes
  \<^verbatim>\<open>-0\<close> from \<^verbatim>\<open>+0\<close> (its only division is by the literal 2).

  \<open>round64\<close> gives the binary64 value of an exact number, to nearest, ties to even.
  It is the value that \<^verbatim>\<open>JSON.parse\<close> and the parser of a numeric literal give to a
  decimal, and the rounding of every arithmetic operation.
\<close>

datatype double = Finite rat | PosInf | NegInf | NaN

text \<open>\<open>pow2 k\<close> is \<open>2\<close> to the power \<open>k\<close>, for any integer \<open>k\<close>.\<close>

definition pow2 :: "int \<Rightarrow> rat" where
  "pow2 k = (if 0 \<le> k then 2 ^ nat k else 1 / 2 ^ nat (- k))"

text \<open>The binary exponent of a positive value: the largest \<open>e\<close> with \<open>2 ^ e \<le> a\<close>, searched
  upwards from 0 for \<open>a \<ge> 1\<close> and downwards otherwise. The search stops at 1024, from where on
  the rounded value is an infinity, and at -1022, the exponent of the least normal number:
  below it the numbers are subnormal and keep the spacing \<open>2 ^ -1074\<close>.\<close>

fun expoUp :: "nat \<Rightarrow> rat \<Rightarrow> int" where
  "expoUp 0 a = 0"
| "expoUp (Suc n) a = (if a < 2 then 0 else expoUp n (a / 2) + 1)"

fun expoDown :: "nat \<Rightarrow> rat \<Rightarrow> int" where
  "expoDown 0 a = 0"
| "expoDown (Suc n) a = (if 1 \<le> a then 0 else expoDown n (2 * a) - 1)"

definition exponent :: "rat \<Rightarrow> int" where
  "exponent a = (if 1 \<le> a then expoUp 1024 a else expoDown 1022 a)"

text \<open>Rounding to the nearest integer, a tie to the even one.\<close>

definition roundHalfEven :: "rat \<Rightarrow> int" where
  "roundHalfEven r =
     (let m = \<lfloor>r\<rfloor>; f = r - of_int m
      in if f < 1 / 2 then m else if 1 / 2 < f then m + 1 else if even m then m else m + 1)"

text \<open>The nearest multiple of the spacing at \<open>a\<close>, for \<open>a \<ge> 0\<close>; and \<open>round64\<close>, the
  binary64 value of an exact number: an infinity when the rounded magnitude reaches
  \<open>2 ^ 1024\<close>.\<close>

definition roundMagnitude :: "rat \<Rightarrow> rat" where
  "roundMagnitude a =
     (let ulp = pow2 (exponent a - 52) in of_int (roundHalfEven (a / ulp)) * ulp)"

definition round64 :: "rat \<Rightarrow> double" where
  "round64 x =
     (let r = roundMagnitude \<bar>x\<bar>
      in if pow2 1024 \<le> r then (if 0 < x then PosInf else NegInf)
         else Finite (if 0 < x then r else - r))"

text \<open>The operations \<^verbatim>\<open>-x\<close>, \<^verbatim>\<open>+\<close>, \<^verbatim>\<open>-\<close>, \<^verbatim>\<open>*\<close>, \<^verbatim>\<open>/\<close>, \<^verbatim>\<open>Math.abs\<close> and
  \<^verbatim>\<open><\<close> of binary64: the exact result of two finite operands is rounded; the
  infinities and NaN follow IEEE 754; a zero divisor is taken as \<^verbatim>\<open>+0\<close>.\<close>

definition dneg :: "double \<Rightarrow> double" where
  "dneg a = (case a of Finite x \<Rightarrow> Finite (- x) | PosInf \<Rightarrow> NegInf | NegInf \<Rightarrow> PosInf | NaN \<Rightarrow> NaN)"

fun dadd :: "double \<Rightarrow> double \<Rightarrow> double" where
  "dadd (Finite x) (Finite y) = round64 (x + y)"
| "dadd NaN b = NaN"
| "dadd a NaN = NaN"
| "dadd PosInf NegInf = NaN"
| "dadd NegInf PosInf = NaN"
| "dadd PosInf b = PosInf"
| "dadd a PosInf = PosInf"
| "dadd NegInf b = NegInf"
| "dadd a NegInf = NegInf"

definition dsub :: "double \<Rightarrow> double \<Rightarrow> double" where
  "dsub a b = dadd a (dneg b)"

definition dsignInf :: "bool \<Rightarrow> double" where
  "dsignInf positive = (if positive then PosInf else NegInf)"

fun dmul :: "double \<Rightarrow> double \<Rightarrow> double" where
  "dmul (Finite x) (Finite y) = round64 (x * y)"
| "dmul NaN b = NaN"
| "dmul a NaN = NaN"
| "dmul (Finite x) PosInf = (if x = 0 then NaN else dsignInf (0 < x))"
| "dmul (Finite x) NegInf = (if x = 0 then NaN else dsignInf (x < 0))"
| "dmul PosInf (Finite y) = (if y = 0 then NaN else dsignInf (0 < y))"
| "dmul NegInf (Finite y) = (if y = 0 then NaN else dsignInf (y < 0))"
| "dmul PosInf PosInf = PosInf"
| "dmul NegInf NegInf = PosInf"
| "dmul PosInf NegInf = NegInf"
| "dmul NegInf PosInf = NegInf"

fun ddiv :: "double \<Rightarrow> double \<Rightarrow> double" where
  "ddiv (Finite x) (Finite y) =
     (if y = 0 then (if x = 0 then NaN else dsignInf (0 < x)) else round64 (x / y))"
| "ddiv NaN b = NaN"
| "ddiv a NaN = NaN"
| "ddiv (Finite x) b = Finite 0"
| "ddiv PosInf (Finite y) = dsignInf (0 \<le> y)"
| "ddiv NegInf (Finite y) = dsignInf (y < 0)"
| "ddiv a b = NaN"

definition dabs :: "double \<Rightarrow> double" where
  "dabs a = (case a of Finite x \<Rightarrow> Finite \<bar>x\<bar> | PosInf \<Rightarrow> PosInf | NegInf \<Rightarrow> PosInf | NaN \<Rightarrow> NaN)"

fun dlt :: "double \<Rightarrow> double \<Rightarrow> bool" where
  "dlt (Finite x) (Finite y) = (x < y)"
| "dlt NaN b = False"
| "dlt a NaN = False"
| "dlt a NegInf = False"
| "dlt PosInf b = False"
| "dlt NegInf b = True"
| "dlt a PosInf = True"

section \<open>Line grouping in binary64\<close>

text \<open>The grouping loop with the arithmetic of the test as the program computes it: the
  numbers of the boxes are converted to binary64 and every operation of
  \<^verbatim>\<open>box.y + box.height / 2\<close> and of
  \<^verbatim>\<open>Math.abs(wordCenterY - referenceCenterY) < lineReferenceWord.boundingBox.height * 0.7\<close>
  is rounded. The loop is the one of \<open>groupLoop\<close>, with \<open>sameLine64\<close> as its test.\<close>

definition centerY64 :: "BoundingBox \<Rightarrow> double" where
  "centerY64 b = dadd (round64 (bb_y b)) (ddiv (round64 (bb_height b)) (round64 2))"

definition sameLine64 :: "BoundingBox \<Rightarrow> BoundingBox \<Rightarrow> bool" where
  "sameLine64 refBox wordBox =
     (let referenceCenterY = centerY64 refBox;
          wordCenterY = centerY64 wordBox
      in dlt (dabs (dsub wordCenterY referenceCenterY))
             (dmul (round64 (bb_height refBox)) (round64 0.7)))"

fun groupLoop64 :: "Word list list \<Rightarrow> Word list \<Rightarrow> Word list \<Rightarrow> error + Word list list" where
  "groupLoop64 earlier currentLine [] = Inr (earlier @ [currentLine])"
| "groupLoop64 earlier currentLine (word # rest) =
     (case currentLine of
        [] \<Rightarrow> Inl TypeError
      | lineReferenceWord # _ \<Rightarrow>
          (case boundingBox lineReferenceWord of
             None \<Rightarrow> Inl TypeError
           | Some refBox \<Rightarrow>
               (case boundingBox word of
                  None \<Rightarrow> Inl TypeError
                | Some wordBox \<Rightarrow>
                    if sameLine64 refBox wordBox
                    then groupLoop64 earlier (currentLine @ [word]) rest
                    else groupLoop64 (earlier @ [currentLine]) [word] rest)))"

definition groupLines64 :: "Word list \<Rightarrow> error + Word list list" where
  "groupLines64 sortedWords =
     (case sortedWords of
        [] \<Rightarrow> Inr []
      | first # rest \<Rightarrow> groupLoop64 [] [first] rest)"

section \<open>The image overlay and the display of a result\<close>

text \<open>\<^verbatim>\<open>ZoomableImage\<close> renders one overlay box per word:
  \<^verbatim>\<open>
  words.map((word, index) => {
      const isHighlighted = highlightedWord === word;
      return (<div key={index} style={{
                  left: `${word.boundingBox.x * 100}%`,
                  top: `${word.boundingBox.y * 100}%`,
                  width: `${word.boundingBox.width * 100}%`,
                  height: `${word.boundingBox.height * 100}%`,
                  backgroundColor: isHighlighted ? ... : 'transparent', ... }} />); })
  \<close>
  The first property read of a word is \<^verbatim>\<open>word.boundingBox.x\<close>.\<close>

record OverlayBox =
  ov_left :: double
  ov_top :: double
  ov_width :: double
  ov_height :: double
  ov_highlighted :: bool

definition overlayBox :: "Word option \<Rightarrow> Word \<Rightarrow> error + OverlayBox" where
  "overlayBox highlighted word =
     (let isHighlighted = (highlighted = Some word)
      in case boundingBox word of
           None \<Rightarrow> Inl TypeError
         | Some box \<Rightarrow>
             Inr \<lparr>ov_left = dmul (round64 (bb_x box)) (round64 100),
                  ov_top = dmul (round64 (bb_y box)) (round64 100),
                  ov_width = dmul (round64 (bb_width box)) (round64 100),
                  ov_height = dmul (round64 (bb_height box)) (round64 100),
                  ov_highlighted = isHighlighted\<rparr>)"

fun overlay :: "Word option \<Rightarrow> Word list \<Rightarrow> error + OverlayBox list" where
  "overlay highlighted [] = Inr []"
| "overlay highlighted (word # words) =
     (case overlayBox highlighted word of
        Inl e \<Rightarrow> Inl e
      | Inr box \<Rightarrow>
          (case overlay highlighted words of
             Inl e \<Rightarrow> Inl e
           | Inr boxes \<Rightarrow> Inr (box # boxes)))"

text \<open>\<^verbatim>\<open>ResultDisplay\<close> renders \<^verbatim>\<open>ZoomableImage\<close> with
  \<^verbatim>\<open>words = result.words\<close> in every render, and the effect on
  \<^verbatim>\<open>[result.words]\<close> runs after the render has completed: an exception in the render
  leaves no effect to run.\<close>

definition displayResult :: "Word list \<Rightarrow> session \<Rightarrow> error + session" where
  "displayResult words s =
     (case overlay (highlightedWord s) words of
        Inl e \<Rightarrow> Inl e
      | Inr boxes \<Rightarrow> loadResult words s)"

section \<open>Notions used in the statements\<close>

text \<open>The editor shows the snapshot at the cursor.\<close>

definition synced :: "session \<Rightarrow> bool" where
  "synced s = (js_nth (stack (history s)) (index (history s)) = Some (editorText s))"

text \<open>Committing a text: an input event that leaves the editor with that text, followed
  by the debounce timer.\<close>

definition commits :: "js_string list \<Rightarrow> event list" where
  "commits ts = concat (map (\<lambda>t. [Input t, DebounceFires]) ts)"

text \<open>A word that carries a bounding box, and the occurrence of a text in a buffer.\<close>

definition boxed :: "Word \<Rightarrow> bool" where
  "boxed w = (boundingBox w \<noteq> None)"

definition occursIn :: "js_string \<Rightarrow> js_string \<Rightarrow> bool" where
  "occursIn t buf = (\<exists>p s. buf = p @ t @ s)"

text \<open>Example words: a word with the given text and box, and a word whose
  \<^verbatim>\<open>boundingBox\<close> is absent.\<close>

definition wordAt :: "string \<Rightarrow> rat \<Rightarrow> rat \<Rightarrow> rat \<Rightarrow> rat \<Rightarrow> Word" where
  "wordAt t x y w h =
     \<lparr>word_text = utf16 t,
      boundingBox = Some \<lparr>bb_x = x, bb_y = y, bb_width = w, bb_height = h\<rparr>\<rparr>"

definition wordWithoutBox :: "string \<Rightarrow> Word" where
  "wordWithoutBox t = \<lparr>word_text = utf16 t, boundingBox = None\<rparr>"

definition wordA :: Word where
  "wordA = wordAt ''A'' 0.3 0.5 0.1 0.05"

section \<open>Properties of the edit history\<close>

lemma commit_same: "js_nth (stack h) (index h) = Some t \<Longrightarrow> commit t h = h"
  by (simp add: commit_def)

lemma history_inv_commit: "history_inv h \<Longrightarrow> history_inv (commit t h)"
  by (simp add: commit_def history_inv_def Let_def)

lemma commit_keeps_first: "history_inv h \<Longrightarrow> stack (commit t h) ! 0 = stack h ! 0"
  by (cases "stack h") (simp_all add: commit_def history_inv_def Let_def)

lemma commit_current: "js_nth (stack (commit t h)) (index (commit t h)) = Some t"
  by (simp add: commit_def Let_def js_nth_def nth_append min_def)

text \<open>Claim C2. Committing the text that is the snapshot at the cursor returns the
  history unchanged; committing any other text keeps the snapshots \<open>0..cursor\<close>, appends
  the text and moves the cursor to the new last index. Committing the same text a second
  time changes nothing, so the number of snapshots stays the same.\<close>

theorem commit_spec:
  "(js_nth (stack h) (index h) = Some t \<longrightarrow> commit t h = h) \<and>
   (js_nth (stack h) (index h) \<noteq> Some t \<longrightarrow>
      stack (commit t h) = take (index h + 1) (stack h) @ [t] \<and>
      index (commit t h) = length (stack (commit t h)) - 1) \<and>
   commit t (commit t h) = commit t h \<and>
   length (stack (commit t (commit t h))) = length (stack (commit t h))"
proof -
  have twice: "commit t (commit t h) = commit t h"
    using commit_current [of t h] by (rule commit_same)
  show ?thesis
    by (simp add: twice) (simp add: commit_def Let_def)
qed

theorem commit_spec_witness:
  "js_nth (stack \<lparr>stack = [utf16 ''a'', utf16 ''b'', utf16 ''c''], index = 1\<rparr>) 
      (index \<lparr>stack = [utf16 ''a'', utf16 ''b'', utf16 ''c''], index = 1\<rparr>) = Some (utf16 ''b'') \<and>
   commit (utf16 ''b'') \<lparr>stack = [utf16 ''a'', utf16 ''b'', utf16 ''c''], index = 1\<rparr>
     = \<lparr>stack = [utf16 ''a'', utf16 ''b'', utf16 ''c''], index = 1\<rparr> \<and>
   js_nth (stack \<lparr>stack = [utf16 ''a'', utf16 ''b'', utf16 ''c''], index = 1\<rparr>) 
      (index \<lparr>stack = [utf16 ''a'', utf16 ''b'', utf16 ''c''], index = 1\<rparr>) \<noteq> Some (utf16 ''d'') \<and>
   commit (utf16 ''d'') \<lparr>stack = [utf16 ''a'', utf16 ''b'', utf16 ''c''], index = 1\<rparr>
     = \<lparr>stack = [utf16 ''a'', utf16 ''b'', utf16 ''d''], index = 2\<rparr>"
  using commit_spec [of "\<lparr>stack = [utf16 ''a'', utf16 ''b'', utf16 ''c''], index = 1\<rparr>" "utf16 ''b''"]
        commit_spec [of "\<lparr>stack = [utf16 ''a'', utf16 ''b'', utf16 ''c''], index = 1\<rparr>" "utf16 ''d''"]
  by (simp add: js_nth_def utf16_def)

section \<open>Example words\<close>

lemma wordAt_simps:
  "word_text (wordAt t x y w h) = utf16 t"
  "boundingBox (wordAt t x y w h) = Some \<lparr>bb_x = x, bb_y = y, bb_width = w, bb_height = h\<rparr>"
  by (simp_all add: wordAt_def)

lemma ex_reconstruct: "reconstruct [wordA] = Inr (utf16 ''A'')"
  by (simp add: reconstruct_def groupLines_def wordA_def wordAt_def)

section \<open>Running events\<close>

lemma run_Nil: "run [] s = s"
  by (simp add: run_def)

lemma run_Cons: "run (e # evs) s = run evs (step e s)"
  by (simp add: run_def)

lemma run_append: "run (evs @ evs') s = run evs' (run evs s)"
  by (simp add: run_def)

section \<open>The highlight latch\<close>

lemma step_latched:
  "hasEditedSinceLoad s \<Longrightarrow>
     hasEditedSinceLoad (step e s) \<and> highlightedWord (step e s) = highlightedWord s"
  by (cases e)
     (simp_all add: handleWordEnter_def handleWordSpanMouseLeave_def handleInput_def
        debounceFires_def handleUndo_def handleRedo_def toggleDiacritics_def Let_def)

lemma run_latched:
  "hasEditedSinceLoad s \<Longrightarrow>
     hasEditedSinceLoad (run evs s) \<and> highlightedWord (run evs s) = highlightedWord s"
proof (induction evs arbitrary: s)
  case Nil
  then show ?case by (simp add: run_Nil)
next
  case (Cons e evs)
  from step_latched [OF Cons.prems, of e]
  have "hasEditedSinceLoad (step e s)" and "highlightedWord (step e s) = highlightedWord s"
    by simp_all
  with Cons.IH [of "step e s"] show ?case by (simp add: run_Cons)
qed

lemma handleInput_latches: "hasEditedSinceLoad (handleInput t s)"
  by (simp add: handleInput_def Let_def)

lemma loadResult_unlatches:
  "loadResult ws s = Inr s' \<Longrightarrow> \<not> hasEditedSinceLoad s'"
  by (auto simp: loadResult_def split: sum.splits)

text \<open>Claim C4. After one input event, whatever events follow (hovers, further input,
  the debounce timer, undo, redo, the diacritics toggle), the edit latch stays set and
  the highlighted word stays what the input event left (nothing, when that event was the
  first edit); a hover event, entering or leaving a word, returns the session unchanged.
  Once a new analysis result has been loaded the latch is clear and hovering sets and
  clears the highlight again.\<close>

theorem highlight_latch:
  "hasEditedSinceLoad (run evs (handleInput t s)) \<and>
   highlightedWord (run evs (handleInput t s)) = highlightedWord (handleInput t s) \<and>
   (\<not> hasEditedSinceLoad s \<longrightarrow> highlightedWord (run evs (handleInput t s)) = None) \<and>
   handleWordEnter w (run evs (handleInput t s)) = run evs (handleInput t s) \<and>
   handleWordSpanMouseLeave (run evs (handleInput t s)) = run evs (handleInput t s) \<and>
   (\<forall>s'. loadResult ws (run evs (handleInput t s)) = Inr s' \<longrightarrow>
      \<not> hasEditedSinceLoad s' \<and>
      highlightedWord (handleWordEnter w s') = Some w \<and>
      highlightedWord (handleWordSpanMouseLeave (handleWordEnter w s')) = None)"
proof -
  let ?s1 = "run evs (handleInput t s)"
  have latched: "hasEditedSinceLoad ?s1"
    and same: "highlightedWord ?s1 = highlightedWord (handleInput t s)"
    using run_latched [OF handleInput_latches, of evs t s] by simp_all
  have cleared: "\<not> hasEditedSinceLoad s \<Longrightarrow> highlightedWord (handleInput t s) = None"
    by (simp add: handleInput_def Let_def)
  have enter: "handleWordEnter w ?s1 = ?s1"
    using latched by (simp add: handleWordEnter_def)
  have leave: "handleWordSpanMouseLeave ?s1 = ?s1"
    using latched by (simp add: handleWordSpanMouseLeave_def)
  have reload: "\<not> hasEditedSinceLoad s' \<and>
      highlightedWord (handleWordEnter w s') = Some w \<and>
      highlightedWord (handleWordSpanMouseLeave (handleWordEnter w s')) = None"
    if "loadResult ws ?s1 = Inr s'" for s'
    using loadResult_unlatches [OF that]
    by (simp add: handleWordEnter_def handleWordSpanMouseLeave_def)
  from latched same cleared enter leave reload show ?thesis by simp
qed

theorem highlight_latch_witness:
  "\<not> hasEditedSinceLoad (handleWordEnter wordA initialSession) \<and>
   highlightedWord (handleWordEnter wordA initialSession) = Some wordA \<and>
   highlightedWord (run [WordEnter wordA, Undo, WordLeave, DebounceFires, WordEnter wordA]
      (handleInput (utf16 ''x'') (handleWordEnter wordA initialSession))) = None \<and>
   loadResult [wordA] (run [WordEnter wordA, Undo, WordLeave, DebounceFires, WordEnter wordA]
      (handleInput (utf16 ''x'') (handleWordEnter wordA initialSession)))
     = Inr \<lparr>history = \<lparr>stack = [utf16 ''A''], index = 0\<rparr>, editorText = utf16 ''A'',
            hasEditedSinceLoad = False, highlightedWord = None,
            diacriticsVisible = True, debouncePending = False\<rparr> \<and>
   highlightedWord (handleWordEnter wordA
       \<lparr>history = \<lparr>stack = [utf16 ''A''], index = 0\<rparr>, editorText = utf16 ''A'',
            hasEditedSinceLoad = False, highlightedWord = None,
            diacriticsVisible = True, debouncePending = False\<rparr>) = Some wordA"
proof -
  let ?s = "handleWordEnter wordA initialSession"
  let ?evs = "[WordEnter wordA, Undo, WordLeave, DebounceFires, WordEnter wordA]"
  let ?s' = "\<lparr>history = \<lparr>stack = [utf16 ''A''], index = 0\<rparr>, editorText = utf16 ''A'',
            hasEditedSinceLoad = False, highlightedWord = None,
            diacriticsVisible = True, debouncePending = False\<rparr>"
  have a: "\<not> hasEditedSinceLoad ?s" "highlightedWord ?s = Some wordA"
    by (simp_all add: handleWordEnter_def initialSession_def)
  have r: "run ?evs (handleInput (utf16 ''x'') ?s)
     = \<lparr>history = \<lparr>stack = [[], utf16 ''x''], index = 1\<rparr>, editorText = utf16 ''x'',
        hasEditedSinceLoad = True, highlightedWord = None,
        diacriticsVisible = True, debouncePending = False\<rparr>"
    by (simp add: run_def handleWordEnter_def handleWordSpanMouseLeave_def initialSession_def
          handleInput_def debounceFires_def handleUndo_def canUndo_def commit_def js_nth_def
          setInnerText_def Let_def utf16_def)
  have l: "loadResult [wordA] (run ?evs (handleInput (utf16 ''x'') ?s)) = Inr ?s'"
    by (simp add: r loadResult_def ex_reconstruct)
  note t = highlight_latch [of ?evs "utf16 ''x''" ?s wordA "[wordA]"]
  from t a have n: "highlightedWord (run ?evs (handleInput (utf16 ''x'') ?s)) = None"
    by blast
  from t l have e: "highlightedWord (handleWordEnter wordA ?s') = Some wordA"
    by blast
  from a n l e show ?thesis
    by blast
qed

section \<open>The history invariant\<close>

lemma handleUndo_history_inv:
  "history_inv (history s) \<Longrightarrow> history_inv (history (handleUndo s))"
  by (auto simp: handleUndo_def canUndo_def history_inv_def Let_def)

lemma handleRedo_history_inv:
  "history_inv (history s) \<Longrightarrow> history_inv (history (handleRedo s))"
  by (auto simp: handleRedo_def canRedo_def history_inv_def Let_def)

lemma step_history_inv:
  "history_inv (history s) \<Longrightarrow> history_inv (history (step e s))"
  by (cases e)
     (simp_all add: handleWordEnter_def handleWordSpanMouseLeave_def handleInput_def
        debounceFires_def toggleDiacritics_def Let_def
        history_inv_commit handleUndo_history_inv handleRedo_history_inv)

lemma step_keeps_first:
  "history_inv (history s) \<Longrightarrow> stack (history (step e s)) ! 0 = stack (history s) ! 0"
  by (cases e)
     (auto simp: handleWordEnter_def handleWordSpanMouseLeave_def handleInput_def
        debounceFires_def handleUndo_def handleRedo_def toggleDiacritics_def Let_def
        commit_keeps_first)

lemma run_history_inv:
  "history_inv (history s) \<Longrightarrow>
     history_inv (history (run evs s)) \<and> stack (history (run evs s)) ! 0 = stack (history s) ! 0"
proof (induction evs arbitrary: s)
  case Nil
  then show ?case by (simp add: run_Nil)
next
  case (Cons e evs)
  have "history_inv (history (step e s))"
    using Cons.prems by (rule step_history_inv)
  from Cons.IH [OF this] step_keeps_first [OF Cons.prems, of e]
  show ?case by (simp add: run_Cons)
qed

lemma loadResult_history:
  "loadResult ws s = Inr s' \<Longrightarrow>
     reconstruct ws = Inr (editorText s') \<and> history s' = \<lparr>stack = [editorText s'], index = 0\<rparr>"
  by (auto simp: loadResult_def split: sum.splits)

text \<open>Claim C9. The initial history satisfies the invariant \<open>cursor < length snapshots\<close>.
  Loading a result yields the history with the reconstructed text as its only snapshot
  and cursor 0, and after any sequence of events that follows the invariant holds and
  snapshot 0 is still the reconstructed text. Commit, undo and redo each preserve the
  invariant; commit keeps snapshot 0, undo and redo keep all snapshots; undo changes
  nothing at cursor 0 and redo changes nothing at the last index.\<close>

theorem history_invariant:
  "history_inv (history initialSession) \<and>
   (\<forall>s'. loadResult ws s = Inr s' \<longrightarrow>
      reconstruct ws = Inr (editorText s') \<and>
      history s' = \<lparr>stack = [editorText s'], index = 0\<rparr> \<and>
      (\<forall>evs. history_inv (history (run evs s')) \<and>
             js_nth (stack (history (run evs s'))) 0 = Some (editorText s'))) \<and>
   (history_inv h \<longrightarrow>
      history_inv (commit t h) \<and> stack (commit t h) ! 0 = stack h ! 0) \<and>
   (history_inv (history s) \<longrightarrow>
      history_inv (history (handleUndo s)) \<and>
      stack (history (handleUndo s)) = stack (history s) \<and>
      (index (history s) = 0 \<longrightarrow> handleUndo s = s)) \<and>
   (history_inv (history s) \<longrightarrow>
      history_inv (history (handleRedo s)) \<and>
      stack (history (handleRedo s)) = stack (history s) \<and>
      (index (history s) = length (stack (history s)) - 1 \<longrightarrow> handleRedo s = s))"
proof -
  have init: "history_inv (history initialSession)"
    by (simp add: initialSession_def history_inv_def)
  have load: "reconstruct ws = Inr (editorText s') \<and>
      history s' = \<lparr>stack = [editorText s'], index = 0\<rparr> \<and>
      (\<forall>evs. history_inv (history (run evs s')) \<and>
             js_nth (stack (history (run evs s'))) 0 = Some (editorText s'))"
    if l: "loadResult ws s = Inr s'" for s'
  proof -
    note h = loadResult_history [OF l]
    then have inv: "history_inv (history s')"
      by (simp add: history_inv_def)
    have "history_inv (history (run evs s')) \<and>
          js_nth (stack (history (run evs s'))) 0 = Some (editorText s')" for evs
      using run_history_inv [OF inv, of evs] h
      by (auto simp: js_nth_def history_inv_def)
    with h show ?thesis by blast
  qed
  have com: "history_inv h \<Longrightarrow>
      history_inv (commit t h) \<and> stack (commit t h) ! 0 = stack h ! 0"
    by (simp add: history_inv_commit commit_keeps_first)
  have undo: "history_inv (history s) \<Longrightarrow>
      history_inv (history (handleUndo s)) \<and>
      stack (history (handleUndo s)) = stack (history s) \<and>
      (index (history s) = 0 \<longrightarrow> handleUndo s = s)"
    by (auto simp: handleUndo_def canUndo_def history_inv_def Let_def)
  have redo: "history_inv (history s) \<Longrightarrow>
      history_inv (history (handleRedo s)) \<and>
      stack (history (handleRedo s)) = stack (history s) \<and>
      (index (history s) = length (stack (history s)) - 1 \<longrightarrow> handleRedo s = s)"
    by (auto simp: handleRedo_def canRedo_def history_inv_def Let_def)
  from init load com undo redo show ?thesis by blast
qed

theorem history_invariant_witness:
  "history_inv (history initialSession) \<and>
   loadResult [wordAt ''A'' 0.3 0.5 0.2 0.05] initialSession
     = Inr (initialSession\<lparr>editorText := utf16 ''A'',
              history := \<lparr>stack = [utf16 ''A''], index = 0\<rparr>\<rparr>) \<and>
   history_inv (history (run [Input (utf16 ''Ab''), DebounceFires, Undo, Input (utf16 ''Ac''),
                               DebounceFires, Undo, Undo, Redo]
      (initialSession\<lparr>editorText := utf16 ''A'',
              history := \<lparr>stack = [utf16 ''A''], index = 0\<rparr>\<rparr>))) \<and>
   js_nth (stack (history (run [Input (utf16 ''Ab''), DebounceFires, Undo, Input (utf16 ''Ac''),
                               DebounceFires, Undo, Undo, Redo]
      (initialSession\<lparr>editorText := utf16 ''A'',
              history := \<lparr>stack = [utf16 ''A''], index = 0\<rparr>\<rparr>)))) 0 = Some (utf16 ''A'') \<and>
   history_inv \<lparr>stack = [utf16 ''a'', utf16 ''b'', utf16 ''c''], index = 1\<rparr> \<and>
   history_inv (commit (utf16 ''d'') \<lparr>stack = [utf16 ''a'', utf16 ''b'', utf16 ''c''], index = 1\<rparr>) \<and>
   stack (commit (utf16 ''d'') \<lparr>stack = [utf16 ''a'', utf16 ''b'', utf16 ''c''], index = 1\<rparr>) ! 0
     = utf16 ''a'' \<and>
   index (history initialSession) = 0 \<and>
   handleUndo initialSession = initialSession \<and>
   index (history initialSession) = length (stack (history initialSession)) - 1 \<and>
   handleRedo initialSession = initialSession"
proof -
  let ?s1 = "initialSession\<lparr>editorText := utf16 ''A'',
              history := \<lparr>stack = [utf16 ''A''], index = 0\<rparr>\<rparr>"
  let ?evs = "[Input (utf16 ''Ab''), DebounceFires, Undo, Input (utf16 ''Ac''),
               DebounceFires, Undo, Undo, Redo]"
  let ?h = "\<lparr>stack = [utf16 ''a'', utf16 ''b'', utf16 ''c''], index = 1\<rparr>"
  note t = history_invariant [of "[wordAt ''A'' 0.3 0.5 0.2 0.05]" initialSession ?h
      "utf16 ''d''"]
  have load: "loadResult [wordAt ''A'' 0.3 0.5 0.2 0.05] initialSession = Inr ?s1"
    by (simp add: loadResult_def reconstruct_def groupLines_def wordAt_simps initialSession_def)
  have text1: "editorText ?s1 = utf16 ''A''"
    by simp
  from t have init: "history_inv (history initialSession)"
    by blast
  from t load have "\<forall>evs. history_inv (history (run evs ?s1)) \<and>
             js_nth (stack (history (run evs ?s1))) 0 = Some (editorText ?s1)"
    by blast
  then have r: "history_inv (history (run ?evs ?s1))"
    "js_nth (stack (history (run ?evs ?s1))) 0 = Some (utf16 ''A'')"
    unfolding text1 by blast+
  have hinv: "history_inv ?h"
    by (simp add: history_inv_def)
  with t have c: "history_inv (commit (utf16 ''d'') ?h)"
    "stack (commit (utf16 ''d'') ?h) ! 0 = utf16 ''a''"
    by simp_all
  have i0: "index (history initialSession) = 0"
    "index (history initialSession) = length (stack (history initialSession)) - 1"
    by (simp_all add: initialSession_def)
  from t init i0 have u: "handleUndo initialSession = initialSession"
    and rd: "handleRedo initialSession = initialSession"
    by blast+
  from init load r hinv c i0 u rd show ?thesis
    by (intro conjI)
qed

section \<open>Undo and redo\<close>

lemma commit_at_tail:
  "Suc (index h) = length (stack h) \<Longrightarrow> Suc (index (commit t h)) = length (stack (commit t h))"
  by (simp add: commit_def Let_def)

lemma synced_commit:
  "synced (debounceFires (handleInput t s)) \<and>
   editorText (debounceFires (handleInput t s)) = t \<and>
   history (debounceFires (handleInput t s)) = commit t (history s)"
proof -
  have "debounceFires (handleInput t s)
          = (handleInput t s)\<lparr>history := commit t (history s), debouncePending := False\<rparr>"
    by (simp add: debounceFires_def handleInput_def Let_def)
  moreover have "js_nth (stack (commit t (history s))) (index (commit t (history s))) = Some t"
    by (rule commit_current)
  ultimately show ?thesis
    by (simp add: synced_def handleInput_def Let_def)
qed

lemma run_commits_snoc:
  "run (commits (ts @ [t])) s = debounceFires (handleInput t (run (commits ts) s))"
  by (simp add: commits_def run_append run_Cons run_Nil)

lemma run_commits_at_tail:
  "Suc (index (history s)) = length (stack (history s)) \<Longrightarrow>
     Suc (index (history (run (commits ts) s))) = length (stack (history (run (commits ts) s)))"
proof (induction ts rule: rev_induct)
  case Nil
  then show ?case by (simp add: commits_def run_Nil)
next
  case (snoc t ts)
  then show ?case
    using synced_commit [of t "run (commits ts) s"]
    by (simp add: run_commits_snoc commit_at_tail)
qed

lemma run_commits:
  "ts \<noteq> [] \<Longrightarrow>
     synced (run (commits ts) s) \<and> editorText (run (commits ts) s) = last ts"
proof (induction ts rule: rev_induct)
  case Nil
  then show ?case by simp
next
  case (snoc t ts)
  show ?case
    using synced_commit [of t "run (commits ts) s"]
    by (simp add: run_commits_snoc)
qed

lemma handleUndo_synced:
  "history_inv (history s) \<Longrightarrow> synced s \<Longrightarrow>
     synced (handleUndo s) \<and> history_inv (history (handleUndo s)) \<and>
     stack (history (handleUndo s)) = stack (history s) \<and>
     index (history (handleUndo s)) = index (history s) - 1"
  by (auto simp: handleUndo_def canUndo_def synced_def history_inv_def Let_def js_nth_def
        setInnerText_def)

lemma handleRedo_synced:
  "history_inv (history s) \<Longrightarrow> synced s \<Longrightarrow>
     synced (handleRedo s) \<and> history_inv (history (handleRedo s)) \<and>
     stack (history (handleRedo s)) = stack (history s) \<and>
     index (history (handleRedo s))
       = min (index (history s) + 1) (length (stack (history s)) - 1)"
  by (auto simp: handleRedo_def canRedo_def synced_def history_inv_def Let_def js_nth_def
        setInnerText_def)

lemma run_undos:
  "history_inv (history s) \<Longrightarrow> synced s \<Longrightarrow>
     synced (run (replicate k Undo) s) \<and> history_inv (history (run (replicate k Undo) s)) \<and>
     stack (history (run (replicate k Undo) s)) = stack (history s) \<and>
     index (history (run (replicate k Undo) s)) = index (history s) - k"
proof (induction k arbitrary: s)
  case 0
  then show ?case by (simp add: run_Nil)
next
  case (Suc k)
  note u = handleUndo_synced [OF Suc.prems]
  from u have "history_inv (history (handleUndo s))" and "synced (handleUndo s)"
    by simp_all
  from Suc.IH [OF this] u show ?case
    by (simp add: run_Cons)
qed

lemma run_redos:
  "history_inv (history s) \<Longrightarrow> synced s \<Longrightarrow>
     synced (run (replicate k Redo) s) \<and> history_inv (history (run (replicate k Redo) s)) \<and>
     stack (history (run (replicate k Redo) s)) = stack (history s) \<and>
     index (history (run (replicate k Redo) s))
       = min (index (history s) + k) (length (stack (history s)) - 1)"
proof (induction k arbitrary: s)
  case 0
  then show ?case by (simp add: run_Nil history_inv_def)
next
  case (Suc k)
  note r = handleRedo_synced [OF Suc.prems]
  from r have "history_inv (history (handleRedo s))" and "synced (handleRedo s)"
    by simp_all
  from Suc.IH [OF this] r show ?case
    by (simp add: run_Cons min_def)
qed

lemma undo_redo_general:
  assumes "ts \<noteq> []" and tail: "Suc (index (history s)) = length (stack (history s))"
  shows "editorText (run (commits ts @ replicate k Undo @ replicate k Redo) s) = last ts \<and>
         js_nth (stack (history (run (commits ts @ replicate k Undo @ replicate k Redo) s)))
                (index (history (run (commits ts @ replicate k Undo @ replicate k Redo) s)))
           = Some (last ts)"
proof -
  let ?s1 = "run (commits ts) s"
  let ?s2 = "run (replicate k Undo) ?s1"
  let ?s3 = "run (replicate k Redo) ?s2"
  note c = run_commits [OF assms(1), of s]
  note t1 = run_commits_at_tail [OF tail, of ts]
  from c have syn1: "synced ?s1"
    by simp
  from t1 have inv1: "history_inv (history ?s1)"
    by (simp add: history_inv_def)
  note u = run_undos [OF inv1 syn1, of k]
  then have inv2: "history_inv (history ?s2)" and syn2: "synced ?s2"
    by simp_all
  note r = run_redos [OF inv2 syn2, of k]
  have stack3: "stack (history ?s3) = stack (history ?s1)"
    using u r by simp
  have "index (history ?s3) = min (index (history ?s1) - k + k) (length (stack (history ?s1)) - 1)"
    using u r by simp
  also have "\<dots> = index (history ?s1)"
    using t1 by linarith
  finally have index3: "index (history ?s3) = index (history ?s1)" .
  have syn3: "synced ?s3"
    using r by simp
  have cur3: "js_nth (stack (history ?s3)) (index (history ?s3)) = Some (editorText ?s3)"
    using syn3 unfolding synced_def .
  have "js_nth (stack (history ?s1)) (index (history ?s1)) = Some (editorText ?s1)"
    using syn1 unfolding synced_def .
  with c have cur1: "js_nth (stack (history ?s1)) (index (history ?s1)) = Some (last ts)"
    by simp
  from cur3 have "js_nth (stack (history ?s1)) (index (history ?s1)) = Some (editorText ?s3)"
    by (simp only: stack3 index3)
  with cur1 have text3: "editorText ?s3 = last ts"
    by simp
  from cur3 text3 have "js_nth (stack (history ?s3)) (index (history ?s3)) = Some (last ts)"
    by simp
  with text3 show ?thesis
    by (simp only: run_append)
qed

text \<open>Claim C3. Starting from a fresh history (one snapshot, cursor 0), committing a
  non-empty sequence of \<open>N\<close> pairwise distinct texts in order, then undoing \<open>N - 1\<close>
  times and redoing \<open>N - 1\<close> times, leaves the editor and the snapshot at the cursor
  equal to the last committed text.\<close>

theorem undo_redo_round_trip:
  assumes "ts \<noteq> []" and "distinct ts"
    and "history s = \<lparr>stack = [t0], index = 0\<rparr>"
  shows "editorText (run (commits ts @ replicate (length ts - 1) Undo
                            @ replicate (length ts - 1) Redo) s) = last ts \<and>
         js_nth (stack (history (run (commits ts @ replicate (length ts - 1) Undo
                            @ replicate (length ts - 1) Redo) s)))
                (index (history (run (commits ts @ replicate (length ts - 1) Undo
                            @ replicate (length ts - 1) Redo) s)))
           = Some (last ts)"
proof -
  from assms(3) have tail: "Suc (index (history s)) = length (stack (history s))"
    by simp
  show ?thesis
    using undo_redo_general [OF assms(1) tail, of "length ts - 1"] .
qed

theorem undo_redo_round_trip_witness:
  "[utf16 ''a'', utf16 ''b'', utf16 ''c''] \<noteq> [] \<and>
   distinct [utf16 ''a'', utf16 ''b'', utf16 ''c''] \<and>
   history initialSession = \<lparr>stack = [[]], index = 0\<rparr> \<and>
   editorText (run (commits [utf16 ''a'', utf16 ''b'', utf16 ''c'']
                      @ replicate 2 Undo @ replicate 2 Redo) initialSession) = utf16 ''c'' \<and>
   history (run (commits [utf16 ''a'', utf16 ''b'', utf16 ''c'']
                      @ replicate 2 Undo @ replicate 2 Redo) initialSession)
     = \<lparr>stack = [[], utf16 ''a'', utf16 ''b'', utf16 ''c''], index = 3\<rparr> \<and>
   editorText (run (commits [utf16 ''a'', utf16 ''b'', utf16 ''c'']
                      @ replicate 2 Undo) initialSession) = utf16 ''a''"
proof -
  have d: "distinct [utf16 ''a'', utf16 ''b'', utf16 ''c'']"
    by (simp add: utf16_def)
  have h: "history initialSession = \<lparr>stack = [[]], index = 0\<rparr>"
    by (simp add: initialSession_def)
  have ev: "run (commits [utf16 ''a'', utf16 ''b'', utf16 ''c'']
                      @ replicate 2 Undo @ replicate 2 Redo) initialSession
      = \<lparr>history = \<lparr>stack = [[], utf16 ''a'', utf16 ''b'', utf16 ''c''], index = 3\<rparr>,
         editorText = utf16 ''c'', hasEditedSinceLoad = True, highlightedWord = None,
         diacriticsVisible = True, debouncePending = False\<rparr>"
    by (simp add: run_def commits_def initialSession_def handleInput_def debounceFires_def
          commit_def handleUndo_def handleRedo_def canUndo_def canRedo_def js_nth_def
          setInnerText_def utf16_def numeral_2_eq_2 Let_def)
  have ev2: "editorText (run (commits [utf16 ''a'', utf16 ''b'', utf16 ''c'']
                      @ replicate 2 Undo) initialSession) = utf16 ''a''"
    by (simp add: run_def commits_def initialSession_def handleInput_def debounceFires_def
          commit_def handleUndo_def handleRedo_def canUndo_def canRedo_def js_nth_def
          setInnerText_def utf16_def numeral_2_eq_2 Let_def)
  show ?thesis
    using undo_redo_round_trip [OF _ d h] d h ev ev2 by simp
qed

section \<open>Stripping diacritics\<close>

lemma replaceAllClass_filter: "replaceAllClass cls str = filter (\<lambda>c. \<not> cls c) str"
  by (induction str) simp_all

lemma diacriticClass_set: "diacriticClass c \<longleftrightarrow> c \<in> {0x064B..0x0652} \<union> {0x0640}"
  by (auto simp: diacriticClass_def)

text \<open>Claim C10. \<open>removeDiacritics\<close> keeps, in order, exactly the code units that are
  neither in the range U+064B to U+0652 nor equal to U+0640; it is idempotent. The text
  handed to copy and export is the snapshot at the cursor when diacritics are shown, and
  its stripped form when they are hidden; the toggle leaves the history alone and is
  undone by a second toggle.\<close>

theorem removeDiacritics_spec:
  "removeDiacritics str = filter (\<lambda>c. c \<notin> {0x064B..0x0652} \<union> {0x0640}) str \<and>
   removeDiacritics (removeDiacritics str) = removeDiacritics str \<and>
   (diacriticsVisible s \<and> js_nth (stack (history s)) (index (history s)) = Some snapshot
      \<longrightarrow> getTextToProcess s = snapshot) \<and>
   (\<not> diacriticsVisible s \<and> js_nth (stack (history s)) (index (history s)) = Some snapshot
      \<longrightarrow> getTextToProcess s = removeDiacritics snapshot) \<and>
   history (toggleDiacritics s) = history s \<and>
   toggleDiacritics (toggleDiacritics s) = s"
proof -
  have f: "removeDiacritics t = filter (\<lambda>c. c \<notin> {0x064B..0x0652} \<union> {0x0640}) t" for t
    unfolding removeDiacritics_def replaceAllClass_filter diacriticClass_set ..
  have i: "removeDiacritics (removeDiacritics str) = removeDiacritics str"
    by (simp only: f filter_filter) simp
  have g: "getTextToProcess s = (if diacriticsVisible s then snapshot else removeDiacritics snapshot)"
    if "js_nth (stack (history s)) (index (history s)) = Some snapshot"
    using that by (simp add: getTextToProcess_def)
  have t: "history (toggleDiacritics s) = history s" "toggleDiacritics (toggleDiacritics s) = s"
    by (simp_all add: toggleDiacritics_def)
  from f [of str] i g t show ?thesis
    by simp
qed

theorem removeDiacritics_spec_witness:
  "removeDiacritics [0x0643, 0x064E, 0x0640, 0x062A, 0x064B, 0x0652, 0x0653, 0x064A, 0x0041]
     = [0x0643, 0x062A, 0x0653, 0x064A, 0x0041] \<and>
   diacriticsVisible (initialSession\<lparr>history := \<lparr>stack = [[0x0643, 0x064E]], index = 0\<rparr>\<rparr>) \<and>
   js_nth (stack (history (initialSession\<lparr>history := \<lparr>stack = [[0x0643, 0x064E]], index = 0\<rparr>\<rparr>)))
     (index (history (initialSession\<lparr>history := \<lparr>stack = [[0x0643, 0x064E]], index = 0\<rparr>\<rparr>)))
     = Some [0x0643, 0x064E] \<and>
   getTextToProcess (initialSession\<lparr>history := \<lparr>stack = [[0x0643, 0x064E]], index = 0\<rparr>\<rparr>)
     = [0x0643, 0x064E] \<and>
   \<not> diacriticsVisible
       (toggleDiacritics (initialSession\<lparr>history := \<lparr>stack = [[0x0643, 0x064E]], index = 0\<rparr>\<rparr>)) \<and>
   js_nth (stack (history
       (toggleDiacritics (initialSession\<lparr>history := \<lparr>stack = [[0x0643, 0x064E]], index = 0\<rparr>\<rparr>))))
     (index (history
       (toggleDiacritics (initialSession\<lparr>history := \<lparr>stack = [[0x0643, 0x064E]], index = 0\<rparr>\<rparr>))))
     = Some [0x0643, 0x064E] \<and>
   getTextToProcess
       (toggleDiacritics (initialSession\<lparr>history := \<lparr>stack = [[0x0643, 0x064E]], index = 0\<rparr>\<rparr>))
     = [0x0643]"
proof -
  let ?str = "[0x0643, 0x064E, 0x0640, 0x062A, 0x064B, 0x0652, 0x0653, 0x064A, 0x0041] :: js_string"
  let ?snap = "[0x0643, 0x064E] :: js_string"
  let ?s = "initialSession\<lparr>history := \<lparr>stack = [?snap], index = 0\<rparr>\<rparr>"
  note shown = removeDiacritics_spec [of ?str ?s ?snap]
  note hidden = removeDiacritics_spec [of ?snap "toggleDiacritics ?s" ?snap]
  have visible: "diacriticsVisible ?s" "\<not> diacriticsVisible (toggleDiacritics ?s)"
    by (simp_all add: initialSession_def toggleDiacritics_def)
  have current: "js_nth (stack (history ?s)) (index (history ?s)) = Some ?snap"
    "js_nth (stack (history (toggleDiacritics ?s))) (index (history (toggleDiacritics ?s)))
       = Some ?snap"
    by (simp_all add: js_nth_def toggleDiacritics_def)
  from shown have strip: "removeDiacritics ?str = [0x0643, 0x062A, 0x0653, 0x064A, 0x0041]"
    by simp
  from shown visible(1) current(1) have raw: "getTextToProcess ?s = ?snap"
    by blast
  from hidden visible(2) current(2)
  have "getTextToProcess (toggleDiacritics ?s) = removeDiacritics ?snap"
    by blast
  also from hidden have "removeDiacritics ?snap = [0x0643]"
    by simp
  finally have stripped: "getTextToProcess (toggleDiacritics ?s) = [0x0643]" .
  from strip visible(1) current(1) raw visible(2) current(2) stripped show ?thesis
    by (intro conjI)
qed

section \<open>Zoom bounds\<close>

lemma handleZoomIn_le: "handleZoomIn scale \<le> 5"
  by (simp add: handleZoomIn_def)

lemma handleZoomOut_ge: "0.5 \<le> handleZoomOut scale"
  by (simp add: handleZoomOut_def)

lemma handleZoomIn_ge: "0.5 \<le> scale \<Longrightarrow> 0.5 \<le> handleZoomIn scale"
  by (simp add: handleZoomIn_def)

lemma handleZoomOut_le: "scale \<le> 5 \<Longrightarrow> handleZoomOut scale \<le> 5"
  by (simp add: handleZoomOut_def)

lemma zoomIn_iterated: "(handleZoomIn ^^ n) 1 \<le> 5"
proof (cases n)
  case 0
  then show ?thesis by simp
next
  case (Suc m)
  then show ?thesis
    using handleZoomIn_le [of "(handleZoomIn ^^ m) 1"] by simp
qed

lemma zoomOut_iterated: "0.5 \<le> (handleZoomOut ^^ n) 1"
proof (cases n)
  case 0
  then show ?thesis by simp
next
  case (Suc m)
  then show ?thesis
    using handleZoomOut_ge [of "(handleZoomOut ^^ m) 1"] by simp
qed

lemma zoom_mixed_from:
  "0.5 \<le> scale \<Longrightarrow> scale \<le> 5 \<Longrightarrow>
     0.5 \<le> foldl (\<lambda>s z. zoomStep z s) scale zs \<and> foldl (\<lambda>s z. zoomStep z s) scale zs \<le> 5"
proof (induction zs arbitrary: scale)
  case Nil
  then show ?case by simp
next
  case (Cons z zs)
  have "0.5 \<le> zoomStep z scale \<and> zoomStep z scale \<le> 5"
  proof (cases z)
    case ZoomIn
    then show ?thesis
      using handleZoomIn_le [of scale] handleZoomIn_ge [OF Cons.prems(1)] by simp
  next
    case ZoomOut
    then show ?thesis
      using handleZoomOut_ge [of scale] handleZoomOut_le [OF Cons.prems(2)] by simp
  qed
  then have "0.5 \<le> zoomStep z scale" and "zoomStep z scale \<le> 5"
    by blast+
  from Cons.IH [OF this] show ?case by simp
qed

text \<open>Claim C8. Zooming in sets the scale to \<open>min (scale * 1.2) 5\<close> and zooming out
  to \<open>max (scale / 1.2) 0.5\<close>. Starting from scale 1, the scale after any number of
  zoom-in steps is at most 5, after any number of zoom-out steps at least 0.5, and after
  any sequence of both it lies between 0.5 and 5.\<close>

theorem zoom_bounds:
  "handleZoomIn scale = min (scale * 1.2) 5.0 \<and>
   handleZoomOut scale = max (scale / 1.2) 0.5 \<and>
   (handleZoomIn ^^ n) 1 \<le> 5.0 \<and>
   0.5 \<le> (handleZoomOut ^^ n) 1 \<and>
   0.5 \<le> foldl (\<lambda>s z. zoomStep z s) 1 zs \<and>
   foldl (\<lambda>s z. zoomStep z s) 1 zs \<le> 5.0"
proof -
  have "(0.5::rat) \<le> 1" and "(1::rat) \<le> 5"
    by simp_all
  from zoom_mixed_from [OF this, of zs] zoomIn_iterated [of n] zoomOut_iterated [of n]
  show ?thesis
    by (simp add: handleZoomIn_def handleZoomOut_def)
qed

section \<open>Line grouping\<close>
text \<open>The claim C6 as stated fails: two words of height 0 with the same vertical centre
  are put on two lines, not on one.\<close>

theorem zero_height_same_center_counterexample:
  "bb_height \<lparr>bb_x = 0.6, bb_y = 0.3, bb_width = 0.2, bb_height = 0\<rparr> = 0 \<and>
   centerY \<lparr>bb_x = 0.2, bb_y = 0.3, bb_width = 0.2, bb_height = 0\<rparr>
     = centerY \<lparr>bb_x = 0.6, bb_y = 0.3, bb_width = 0.2, bb_height = 0\<rparr> \<and>
   groupLines [wordAt ''X'' 0.6 0.3 0.2 0, wordAt ''Y'' 0.2 0.3 0.2 0]
     = Inr [[wordAt ''X'' 0.6 0.3 0.2 0], [wordAt ''Y'' 0.2 0.3 0.2 0]] \<and>
   groupLines [wordAt ''X'' 0.6 0.3 0.2 0, wordAt ''Y'' 0.2 0.3 0.2 0]
     \<noteq> Inr [[wordAt ''X'' 0.6 0.3 0.2 0, wordAt ''Y'' 0.2 0.3 0.2 0]] \<and>
   reconstruct [wordAt ''X'' 0.6 0.3 0.2 0, wordAt ''Y'' 0.2 0.3 0.2 0]
     = Inr (utf16 ''X'' @ [0x0A] @ utf16 ''Y'')"
  by (simp add: reconstruct_def groupLines_def cmpY_def cmpXDesc_def sameLine_def centerY_def
        wordAt_simps)

text \<open>Claim C6, as amended. When the reference word of the current line has height
  exactly 0, every next word starts a new line, also one whose vertical centre equals that
  of the reference word: the test is \<open>\<bar>d\<bar> < 0\<close>, which never holds. A single word of
  height 0 is a line of its own and is reconstructed as its text; the only division of the
  reconstruction is the division of a height by the constant 2.\<close>

theorem zero_height_reference:
  assumes "boundingBox ref = Some refBox" and "boundingBox word = Some wordBox"
    and "bb_height refBox = 0"
  shows "\<not> sameLine refBox wordBox \<and>
         groupLoop earlier (ref # line) (word # rest)
           = groupLoop (earlier @ [ref # line]) [word] rest \<and>
         groupLines [ref, word] = Inr [[ref], [word]] \<and>
         groupLines [ref] = Inr [[ref]] \<and>
         reconstruct [ref] = Inr (word_text ref)"
proof -
  have n: "\<not> sameLine refBox wordBox"
    using assms(3) by (simp add: sameLine_def)
  then show ?thesis
    by (simp add: groupLines_def reconstruct_def assms(1,2))
qed

theorem zero_height_reference_witness:
  "boundingBox (wordAt ''X'' 0.6 0.3 0.2 0)
     = Some \<lparr>bb_x = 0.6, bb_y = 0.3, bb_width = 0.2, bb_height = 0\<rparr> \<and>
   bb_height \<lparr>bb_x = 0.6, bb_y = 0.3, bb_width = 0.2, bb_height = 0\<rparr> = 0 \<and>
   groupLines [wordAt ''X'' 0.6 0.3 0.2 0, wordAt ''Z'' 0.2 0.25 0.2 0.1]
     = Inr [[wordAt ''X'' 0.6 0.3 0.2 0], [wordAt ''Z'' 0.2 0.25 0.2 0.1]] \<and>
   groupLines [wordAt ''X'' 0.6 0.3 0.2 0] = Inr [[wordAt ''X'' 0.6 0.3 0.2 0]] \<and>
   reconstruct [wordAt ''X'' 0.6 0.3 0.2 0] = Inr (utf16 ''X'')"
proof -
  have r: "boundingBox (wordAt ''X'' 0.6 0.3 0.2 0)
     = Some \<lparr>bb_x = 0.6, bb_y = 0.3, bb_width = 0.2, bb_height = 0\<rparr>"
    and w: "boundingBox (wordAt ''Z'' 0.2 0.25 0.2 0.1)
     = Some \<lparr>bb_x = 0.2, bb_y = 0.25, bb_width = 0.2, bb_height = 0.1\<rparr>"
    by (simp_all add: wordAt_simps)
  have h: "bb_height \<lparr>bb_x = 0.6, bb_y = 0.3, bb_width = 0.2, bb_height = 0\<rparr> = 0"
    by simp
  from zero_height_reference [OF r w h] r h show ?thesis
    by (simp add: wordAt_simps)
qed

section \<open>Reconstruction and missing geometry\<close>

lemma insertBy_Cons_Inr:
  "insertBy cmp a (b # bs) = Inr r \<longleftrightarrow>
     (\<exists>v. cmp a b = Inr v \<and>
        (if v \<le> 0 then r = a # b # bs
         else \<exists>r'. insertBy cmp a bs = Inr r' \<and> r = b # r'))"
  by (cases "cmp a b"; cases "insertBy cmp a bs") auto

lemma insertBy_set: "insertBy cmp a xs = Inr r \<Longrightarrow> set r = insert a (set xs)"
proof (induction xs arbitrary: r)
  case Nil
  then show ?case by auto
next
  case (Cons b bs)
  from Cons.prems obtain v where v: "cmp a b = Inr v"
    and r: "if v \<le> 0 then r = a # b # bs
         else \<exists>r'. insertBy cmp a bs = Inr r' \<and> r = b # r'"
    unfolding insertBy_Cons_Inr by blast
  show ?case
  proof (cases "v \<le> 0")
    case True
    with r show ?thesis by auto
  next
    case False
    with r obtain r' where r': "insertBy cmp a bs = Inr r'" "r = b # r'" by auto
    from Cons.IH [OF r'(1)] r'(2) show ?thesis by auto
  qed
qed

lemma js_sort_Cons_Inr:
  "js_sort cmp (a # as) = Inr r \<longleftrightarrow>
     (\<exists>s. js_sort cmp as = Inr s \<and> insertBy cmp a s = Inr r)"
  by (cases "js_sort cmp as") auto

lemma js_sort_set: "js_sort cmp xs = Inr r \<Longrightarrow> set r = set xs"
proof (induction xs arbitrary: r)
  case Nil
  then show ?case by auto
next
  case (Cons a as)
  from Cons.prems obtain s where s: "js_sort cmp as = Inr s" and i: "insertBy cmp a s = Inr r"
    unfolding js_sort_Cons_Inr by blast
  from Cons.IH [OF s] insertBy_set [OF i] show ?case by simp
qed

lemma insertBy_total:
  "(\<And>x. x \<in> set xs \<Longrightarrow> \<exists>v. cmp a x = Inr v) \<Longrightarrow> \<exists>r. insertBy cmp a xs = Inr r"
proof (induction xs)
  case Nil
  show ?case by simp
next
  case (Cons b bs)
  from Cons.prems [of b] obtain v where v: "cmp a b = Inr v"
    by auto
  from Cons.IH Cons.prems obtain r where "insertBy cmp a bs = Inr r"
    by auto
  with v show ?case by simp
qed

lemma js_sort_total:
  "(\<And>x y. x \<in> set xs \<Longrightarrow> y \<in> set xs \<Longrightarrow> \<exists>v. cmp x y = Inr v) \<Longrightarrow>
     \<exists>r. js_sort cmp xs = Inr r"
proof (induction xs)
  case Nil
  show ?case by simp
next
  case (Cons a as)
  from Cons.IH Cons.prems obtain s where s: "js_sort cmp as = Inr s"
    by auto
  have "\<exists>r. insertBy cmp a s = Inr r"
  proof (rule insertBy_total)
    fix x assume "x \<in> set s"
    with js_sort_set [OF s] have "x \<in> set (a # as)" by simp
    then show "\<exists>v. cmp a x = Inr v"
      using Cons.prems [of a x] by simp
  qed
  with s show ?case by simp
qed

lemma cmpY_Inr: "(\<exists>v. cmpY a b = Inr v) \<longleftrightarrow> boxed a \<and> boxed b"
  by (auto simp: cmpY_def boxed_def split: option.splits)

lemma cmpXDesc_Inr: "(\<exists>v. cmpXDesc a b = Inr v) \<longleftrightarrow> boxed a \<and> boxed b"
  by (auto simp: cmpXDesc_def boxed_def split: option.splits)

lemma groupLoop_words:
  "groupLoop earlier cur rest = Inr ls \<Longrightarrow>
     \<Union> (set ` set ls) = \<Union> (set ` set earlier) \<union> set cur \<union> set rest"
proof (induction rest arbitrary: earlier cur)
  case Nil
  then show ?case by auto
next
  case (Cons word rest)
  from Cons.prems obtain ref line refBox wordBox where
    c: "cur = ref # line" and "boundingBox ref = Some refBox" "boundingBox word = Some wordBox"
    by (auto split: list.splits option.splits)
  with Cons.prems have
    "(sameLine refBox wordBox \<and> groupLoop earlier (cur @ [word]) rest = Inr ls) \<or>
     (\<not> sameLine refBox wordBox \<and> groupLoop (earlier @ [cur]) [word] rest = Inr ls)"
    by (auto split: if_splits)
  then show ?case
  proof
    assume "sameLine refBox wordBox \<and> groupLoop earlier (cur @ [word]) rest = Inr ls"
    then have "groupLoop earlier (cur @ [word]) rest = Inr ls" ..
    from Cons.IH [OF this] show ?thesis by auto
  next
    assume "\<not> sameLine refBox wordBox \<and> groupLoop (earlier @ [cur]) [word] rest = Inr ls"
    then have "groupLoop (earlier @ [cur]) [word] rest = Inr ls" ..
    from Cons.IH [OF this] show ?thesis by auto
  qed
qed

lemma groupLoop_total:
  "cur \<noteq> [] \<Longrightarrow> \<forall>w\<in>set cur. boxed w \<Longrightarrow> \<forall>w\<in>set rest. boxed w \<Longrightarrow>
     \<exists>ls. groupLoop earlier cur rest = Inr ls"
proof (induction rest arbitrary: earlier cur)
  case Nil
  show ?case by simp
next
  case (Cons word rest)
  from Cons.prems obtain ref line refBox wordBox where
    c: "cur = ref # line" and r: "boundingBox ref = Some refBox"
    and w: "boundingBox word = Some wordBox"
    by (cases cur) (auto simp: boxed_def)
  have 1: "\<exists>ls. groupLoop earlier (cur @ [word]) rest = Inr ls"
    using Cons.prems by (intro Cons.IH) auto
  have 2: "\<exists>ls. groupLoop (earlier @ [cur]) [word] rest = Inr ls"
    using Cons.prems by (intro Cons.IH) auto
  from 1 2 show ?case
    by (simp add: c r w del: append_Cons)
qed

lemma groupLines_words: "groupLines ws = Inr ls \<Longrightarrow> \<Union> (set ` set ls) = set ws"
  by (cases ws) (auto simp: groupLines_def dest!: groupLoop_words)

lemma groupLines_total: "\<forall>w\<in>set ws. boxed w \<Longrightarrow> \<exists>ls. groupLines ws = Inr ls"
  by (cases ws) (auto simp: groupLines_def intro: groupLoop_total)

lemma occursIn_refl: "occursIn t t"
  unfolding occursIn_def by (rule exI [of _ "[]"], rule exI [of _ "[]"]) simp

lemma occursIn_prepend: "occursIn t buf \<Longrightarrow> occursIn t (p @ buf)"
proof -
  assume "occursIn t buf"
  then obtain p' s where "buf = p' @ t @ s"
    unfolding occursIn_def by blast
  then have "p @ buf = (p @ p') @ t @ s" by simp
  then show ?thesis
    unfolding occursIn_def by blast
qed

lemma occursIn_append: "occursIn t buf \<Longrightarrow> occursIn t (buf @ s)"
proof -
  assume "occursIn t buf"
  then obtain p s' where "buf = p @ t @ s'"
    unfolding occursIn_def by blast
  then have "buf @ s = p @ t @ (s' @ s)" by simp
  then show ?thesis
    unfolding occursIn_def by blast
qed

lemma renderLine_occurs: "w \<in> set line \<Longrightarrow> occursIn (word_text w) (renderLine line)"
proof (induction line rule: renderLine.induct)
  case 1
  then show ?case by simp
next
  case (2 v)
  then show ?case by (simp add: occursIn_refl)
next
  case (3 v u us)
  show ?case
  proof (cases "w = v")
    case True
    then show ?thesis
      using occursIn_append [OF occursIn_refl, of "word_text v"] by simp
  next
    case False
    with 3 have "occursIn (word_text w) (renderLine (u # us))" by simp
    from occursIn_prepend [OF this, of "word_text v @ [0x20]"] show ?thesis by simp
  qed
qed

lemma renderLines_occurs:
  "renderLines ls = Inr buf \<Longrightarrow> line \<in> set ls \<Longrightarrow> w \<in> set line \<Longrightarrow>
     occursIn (word_text w) buf"
proof (induction ls arbitrary: buf)
  case Nil
  then show ?case by simp
next
  case (Cons l ls)
  from Cons.prems(1) obtain sl below where
    sl: "js_sort cmpXDesc l = Inr sl" and below: "renderLines ls = Inr below"
    and buf: "buf = renderLine sl @ (if ls = [] then [] else [0x0A]) @ below"
    by (auto split: sum.splits)
  from Cons.prems(2) have "line = l \<or> line \<in> set ls" by auto
  then show ?case
  proof
    assume "line = l"
    with Cons.prems(3) js_sort_set [OF sl] have "w \<in> set sl" by simp
    from occursIn_append [OF renderLine_occurs [OF this]] show ?thesis
      by (simp add: buf)
  next
    assume "line \<in> set ls"
    from Cons.IH [OF below this Cons.prems(3)] have "occursIn (word_text w) below" .
    then have "occursIn (word_text w) ((renderLine sl @ (if ls = [] then [] else [0x0A])) @ below)"
      by (rule occursIn_prepend)
    then show ?thesis
      by (simp add: buf)
  qed
qed

lemma renderLines_total:
  "\<forall>line\<in>set ls. \<forall>w\<in>set line. boxed w \<Longrightarrow> \<exists>buf. renderLines ls = Inr buf"
proof (induction ls)
  case Nil
  show ?case by simp
next
  case (Cons l ls)
  have "\<exists>sl. js_sort cmpXDesc l = Inr sl"
    using Cons.prems by (intro js_sort_total) (simp add: cmpXDesc_Inr)
  moreover from Cons have "\<exists>below. renderLines ls = Inr below" by simp
  ultimately show ?case by auto
qed

lemma reconstruct_occurs:
  assumes "reconstruct ws = Inr buf" and "w \<in> set ws"
  shows "occursIn (word_text w) buf"
proof -
  from assms(1) obtain sw ls where sw: "js_sort cmpY ws = Inr sw"
    and ls: "groupLines sw = Inr ls" and buf: "renderLines ls = Inr buf"
    by (auto simp: reconstruct_def split: sum.splits)
  from assms(2) js_sort_set [OF sw] groupLines_words [OF ls]
  obtain line where "line \<in> set ls" "w \<in> set line" by auto
  with buf show ?thesis by (rule renderLines_occurs)
qed

lemma reconstruct_boxed:
  assumes "\<forall>w\<in>set ws. boxed w"
  shows "\<exists>buf. reconstruct ws = Inr buf"
proof -
  from assms obtain sw where sw: "js_sort cmpY ws = Inr sw"
    using js_sort_total [of ws cmpY] by (auto simp: cmpY_Inr)
  with assms js_sort_set [OF sw] have b: "\<forall>w\<in>set sw. boxed w" by simp
  then obtain ls where ls: "groupLines sw = Inr ls"
    using groupLines_total by blast
  from groupLines_words [OF ls] b have "\<forall>line\<in>set ls. \<forall>w\<in>set line. boxed w" by auto
  then obtain buf where "renderLines ls = Inr buf"
    using renderLines_total by blast
  with sw ls show ?thesis by (simp add: reconstruct_def)
qed

lemma overlayBox_Inr: "(\<exists>box. overlayBox hw w = Inr box) \<longleftrightarrow> boundingBox w \<noteq> None"
  by (cases "boundingBox w") (simp_all add: overlayBox_def)

lemma overlay_Inr: "(\<exists>boxes. overlay hw ws = Inr boxes) \<longleftrightarrow> (\<forall>w\<in>set ws. boundingBox w \<noteq> None)"
proof (induction ws)
  case Nil
  show ?case by simp
next
  case (Cons w ws)
  show ?case
  proof (cases "overlayBox hw w")
    case (Inl e)
    with overlayBox_Inr [of hw w] show ?thesis by simp
  next
    case box: (Inr box)
    with overlayBox_Inr [of hw w] have w: "boundingBox w \<noteq> None" by blast
    show ?thesis
    proof (cases "overlay hw ws")
      case (Inl e)
      with Cons.IH box show ?thesis by simp
    next
      case (Inr boxes)
      with Cons.IH box w show ?thesis by simp
    qed
  qed
qed

lemma overlay_TypeError:
  "overlay hw ws = Inl TypeError \<longleftrightarrow> (\<exists>w\<in>set ws. boundingBox w = None)"
proof -
  have "overlay hw ws = Inl TypeError \<longleftrightarrow> \<not> (\<exists>boxes. overlay hw ws = Inr boxes)"
    by (cases "overlay hw ws") (auto intro: error.exhaust)
  then show ?thesis
    by (simp add: overlay_Inr)
qed

text \<open>The claim C7 as stated fails: a word without a bounding box makes the render of the
  image overlay throw a \<open>TypeError\<close>, for a list of one word as for a longer one, and the
  effect that reconstructs the text does not run.\<close>

theorem missing_box_counterexample:
  "boundingBox (wordWithoutBox ''A'') = None \<and>
   overlay None [wordWithoutBox ''A''] = Inl TypeError \<and>
   displayResult [wordWithoutBox ''A''] initialSession = Inl TypeError \<and>
   displayResult [wordAt ''B'' 0.1 0.5 0.2 0.05, wordWithoutBox ''A''] initialSession
     = Inl TypeError"
  by (simp add: displayResult_def overlayBox_def wordAt_simps wordWithoutBox_def
        initialSession_def)

text \<open>Claim C7, as amended. No box is substituted. Displaying a result ends in a
  \<open>TypeError\<close> exactly when some word of the list has no bounding box: the error is raised
  while the image overlay is rendered, before the reconstruction effect, so that no buffer
  is produced. When every word carries its bounding box, the overlay is rendered, the
  reconstruction returns a buffer in which the text of every word occurs, and this buffer
  becomes the editor content and the only snapshot of the history.\<close>

theorem missing_geometry_aborts_render:
  "(overlay hw ws = Inl TypeError \<longleftrightarrow> (\<exists>w\<in>set ws. boundingBox w = None)) \<and>
   (displayResult ws s = Inl TypeError \<longleftrightarrow> (\<exists>w\<in>set ws. boundingBox w = None)) \<and>
   ((\<forall>w\<in>set ws. boundingBox w \<noteq> None) \<longrightarrow>
      (\<exists>buf. reconstruct ws = Inr buf \<and>
         displayResult ws s
           = Inr (s\<lparr>editorText := buf, history := \<lparr>stack = [buf], index = 0\<rparr>,
                    hasEditedSinceLoad := False\<rparr>) \<and>
         (\<forall>w\<in>set ws. \<exists>p t. buf = p @ word_text w @ t)))"
proof -
  have boxedCase: "\<exists>buf. reconstruct ws = Inr buf \<and>
         displayResult ws s
           = Inr (s\<lparr>editorText := buf, history := \<lparr>stack = [buf], index = 0\<rparr>,
                    hasEditedSinceLoad := False\<rparr>) \<and>
         (\<forall>w\<in>set ws. \<exists>p t. buf = p @ word_text w @ t)"
    if all: "\<forall>w\<in>set ws. boundingBox w \<noteq> None"
  proof -
    from all obtain boxes where ov: "overlay (highlightedWord s) ws = Inr boxes"
      using overlay_Inr [of "highlightedWord s" ws] by blast
    from all have "\<forall>w\<in>set ws. boxed w" by (simp add: boxed_def)
    then obtain buf where buf: "reconstruct ws = Inr buf"
      using reconstruct_boxed by blast
    have "displayResult ws s
           = Inr (s\<lparr>editorText := buf, history := \<lparr>stack = [buf], index = 0\<rparr>,
                    hasEditedSinceLoad := False\<rparr>)"
      by (simp add: displayResult_def ov loadResult_def buf)
    moreover have "\<forall>w\<in>set ws. \<exists>p t. buf = p @ word_text w @ t"
      using reconstruct_occurs [OF buf] unfolding occursIn_def by blast
    ultimately show ?thesis using buf by blast
  qed
  have display: "displayResult ws s = Inl TypeError \<longleftrightarrow> (\<exists>w\<in>set ws. boundingBox w = None)"
  proof
    assume "displayResult ws s = Inl TypeError"
    show "\<exists>w\<in>set ws. boundingBox w = None"
    proof (rule ccontr)
      assume "\<not> (\<exists>w\<in>set ws. boundingBox w = None)"
      then have "\<forall>w\<in>set ws. boundingBox w \<noteq> None" by simp
      from boxedCase [OF this] \<open>displayResult ws s = Inl TypeError\<close> show False by auto
    qed
  next
    assume "\<exists>w\<in>set ws. boundingBox w = None"
    then have "overlay (highlightedWord s) ws = Inl TypeError"
      by (simp only: overlay_TypeError)
    then show "displayResult ws s = Inl TypeError"
      by (simp add: displayResult_def)
  qed
  from overlay_TypeError [of hw ws] display boxedCase show ?thesis
    by blast
qed

theorem missing_geometry_aborts_render_witness:
  "boundingBox (wordAt ''B'' 0.1 0.5 0.2 0.05) \<noteq> None \<and>
   boundingBox (wordAt ''A'' 0.3 0.5 0.2 0.05) \<noteq> None \<and>
   reconstruct [wordAt ''B'' 0.1 0.5 0.2 0.05, wordAt ''A'' 0.3 0.5 0.2 0.05]
     = Inr (utf16 ''A B'') \<and>
   displayResult [wordAt ''B'' 0.1 0.5 0.2 0.05, wordAt ''A'' 0.3 0.5 0.2 0.05] initialSession
     = Inr (initialSession\<lparr>editorText := utf16 ''A B'',
              history := \<lparr>stack = [utf16 ''A B''], index = 0\<rparr>,
              hasEditedSinceLoad := False\<rparr>) \<and>
   (\<exists>p t. utf16 ''A B'' = p @ word_text (wordAt ''B'' 0.1 0.5 0.2 0.05) @ t) \<and>
   (\<exists>p t. utf16 ''A B'' = p @ word_text (wordAt ''A'' 0.3 0.5 0.2 0.05) @ t) \<and>
   boundingBox (wordWithoutBox ''A'') = None \<and>
   displayResult [wordWithoutBox ''A''] initialSession = Inl TypeError"
proof -
  let ?B = "wordAt ''B'' 0.1 0.5 0.2 0.05"
  let ?A = "wordAt ''A'' 0.3 0.5 0.2 0.05"
  let ?N = "wordWithoutBox ''A''"
  have rec: "reconstruct [?B, ?A] = Inr (utf16 ''A B'')"
    by (simp add: reconstruct_def groupLines_def cmpY_def cmpXDesc_def sameLine_def
          centerY_def wordAt_simps) (simp add: utf16_def)
  have boxes: "boundingBox ?B \<noteq> None" "boundingBox ?A \<noteq> None" "boundingBox ?N = None"
    by (simp_all add: wordAt_simps wordWithoutBox_def)
  then have all: "\<forall>w\<in>set [?B, ?A]. boundingBox w \<noteq> None"
    by simp
  note t1 = missing_geometry_aborts_render [of None "[?B, ?A]" initialSession]
  from t1 all obtain buf where buf: "reconstruct [?B, ?A] = Inr buf"
    and disp: "displayResult [?B, ?A] initialSession
           = Inr (initialSession\<lparr>editorText := buf, history := \<lparr>stack = [buf], index = 0\<rparr>,
                    hasEditedSinceLoad := False\<rparr>)"
    and occ: "\<forall>w\<in>set [?B, ?A]. \<exists>p t. buf = p @ word_text w @ t"
    by blast
  from buf rec have b: "buf = utf16 ''A B''" by simp
  from occ have oB: "\<exists>p t. utf16 ''A B'' = p @ word_text ?B @ t"
    and oA: "\<exists>p t. utf16 ''A B'' = p @ word_text ?A @ t"
    unfolding b by simp_all
  note t2 = missing_geometry_aborts_render [of None "[?N]" initialSession]
  from boxes(3) have "\<exists>w\<in>set [?N]. boundingBox w = None" by simp
  with t2 have err: "displayResult [?N] initialSession = Inl TypeError" by blast
  from boxes rec disp [unfolded b] oB oA err show ?thesis
    by (intro conjI)
qed

section \<open>Binary64 rounding\<close>

lemma pow2_powi: "pow2 k = 2 powi k"
  by (simp add: pow2_def power_int_def field_simps)

lemma pow2_pos: "0 < pow2 k"
  by (simp add: pow2_def)

lemma pow2_Suc: "pow2 (k + 1) = 2 * pow2 k"
  by (simp add: pow2_powi power_int_add)

lemma pow2_pred: "pow2 (k - 1) = pow2 k / 2"
  by (simp add: pow2_powi power_int_diff)

lemma pow2_add: "pow2 (j + k) = pow2 j * pow2 k"
  by (simp add: pow2_powi power_int_add)

lemma roundHalfEven_error: "\<bar>of_int (roundHalfEven r) - r\<bar> \<le> 1 / 2"
proof -
  have "of_int \<lfloor>r\<rfloor> \<le> r" and "r < of_int \<lfloor>r\<rfloor> + 1"
    by linarith+
  then show ?thesis
    by (auto simp: roundHalfEven_def Let_def)
qed

lemma expoDown_ge_one: "1 \<le> a \<Longrightarrow> expoDown n a = 0"
  by (cases n) simp_all

lemma pow2_expoUp: "1 \<le> a \<Longrightarrow> pow2 (expoUp n a) \<le> a"
proof (induction n arbitrary: a)
  case 0
  then show ?case by (simp add: pow2_def)
next
  case (Suc n)
  show ?case
  proof (cases "a < 2")
    case True
    with Suc.prems show ?thesis by (simp add: pow2_def)
  next
    case False
    then have "1 \<le> a / 2" by simp
    from Suc.IH [OF this] have "2 * pow2 (expoUp n (a / 2)) \<le> a" by simp
    with False show ?thesis by (simp add: pow2_Suc)
  qed
qed

lemma pow2_expoDown: "0 < a \<Longrightarrow> a < 1 \<Longrightarrow> pow2 (expoDown n a) \<le> max a (pow2 (- int n))"
proof (induction n arbitrary: a)
  case 0
  then show ?case by (simp add: pow2_def)
next
  case (Suc n)
  have "- int (Suc n) = - int n - 1" by simp
  then have neg: "pow2 (- int (Suc n)) = pow2 (- int n) / 2"
    by (simp only: pow2_pred)
  show ?case
  proof (cases "1 \<le> 2 * a")
    case True
    then have "expoDown n (2 * a) = 0" by (rule expoDown_ge_one)
    with Suc.prems have "pow2 (expoDown (Suc n) a) = 1 / 2"
      by (simp add: pow2_def)
    moreover from True have "1 / 2 \<le> a" by simp
    ultimately show ?thesis
      by (simp add: le_max_iff_disj)
  next
    case False
    with Suc.prems have "0 < 2 * a" "2 * a < 1" by simp_all
    from Suc.IH [OF this] have "pow2 (expoDown n (2 * a)) \<le> max (2 * a) (pow2 (- int n))" .
    then have le: "pow2 (expoDown n (2 * a)) / 2 \<le> max a (pow2 (- int n) / 2)"
      by (auto simp: max_def)
    from Suc.prems have "pow2 (expoDown (Suc n) a) = pow2 (expoDown n (2 * a)) / 2"
      by (simp add: pow2_pred)
    with le show ?thesis
      by (simp only: neg)
  qed
qed

lemma pow2_exponent: "0 < a \<Longrightarrow> pow2 (exponent a) \<le> max a (pow2 (- 1022))"
proof (cases "1 \<le> a")
  case True
  from pow2_expoUp [OF this, of 1024] True show ?thesis
    by (simp add: exponent_def max_def)
next
  case False
  assume "0 < a"
  with False pow2_expoDown [of a 1022] show ?thesis
    by (simp add: exponent_def)
qed

lemma ulp_bound:
  assumes "0 < a"
  shows "pow2 (exponent a - 52) \<le> max (a * pow2 (- 52)) (pow2 (- 1074))"
proof -
  have "pow2 (exponent a - 52) = pow2 (exponent a) * pow2 (- 52)"
    using pow2_add [of "exponent a" "- 52"] by simp
  also have "\<dots> \<le> max a (pow2 (- 1022)) * pow2 (- 52)"
    using pow2_exponent [OF assms] pow2_pos [of "- 52"] by (simp only: mult_le_cancel_right_pos)
  also have "\<dots> = max (a * pow2 (- 52)) (pow2 (- 1022) * pow2 (- 52))"
    using pow2_pos [of "- 52"] by (simp add: max_def)
  also have "pow2 (- 1022) * pow2 (- 52) = pow2 (- 1074)"
    using pow2_add [of "- 1022" "- 52"] by simp
  finally show ?thesis .
qed

lemma roundMagnitude_error:
  "\<bar>roundMagnitude a - a\<bar> \<le> pow2 (exponent a - 52) / 2"
proof -
  let ?q = "pow2 (exponent a - 52)"
  have q: "0 < ?q" by (rule pow2_pos)
  have "roundMagnitude a - a = (of_int (roundHalfEven (a / ?q)) - a / ?q) * ?q"
    using q by (simp add: roundMagnitude_def Let_def field_simps)
  then have "\<bar>roundMagnitude a - a\<bar> = \<bar>of_int (roundHalfEven (a / ?q)) - a / ?q\<bar> * ?q"
    using q by (simp add: abs_mult)
  also have "\<dots> \<le> 1 / 2 * ?q"
    using roundHalfEven_error [of "a / ?q"] q by (simp only: mult_le_cancel_right_pos)
  finally show ?thesis by simp
qed

lemma roundMagnitude_nonneg: "0 \<le> a \<Longrightarrow> 0 \<le> roundMagnitude a"
proof -
  assume a: "0 \<le> a"
  have q: "0 < pow2 (exponent a - 52)" by (rule pow2_pos)
  with a have "0 \<le> a / pow2 (exponent a - 52)" by simp
  then have "0 \<le> \<lfloor>a / pow2 (exponent a - 52)\<rfloor>" by simp
  then have "0 \<le> roundHalfEven (a / pow2 (exponent a - 52))"
    by (simp add: roundHalfEven_def Let_def)
  with q show ?thesis
    by (simp add: roundMagnitude_def Let_def)
qed

lemma round64_Finite_bound: "round64 x = Finite v \<Longrightarrow> \<bar>v\<bar> < pow2 1024"
  using roundMagnitude_nonneg [of "\<bar>x\<bar>"]
  by (auto simp: round64_def Let_def split: if_splits)

lemma round64_pos:
  "0 < x \<Longrightarrow> roundMagnitude x < pow2 1024 \<Longrightarrow> round64 x = Finite (roundMagnitude x)"
  by (simp add: round64_def Let_def)

lemma pow2_mono: "j \<le> k \<Longrightarrow> pow2 j \<le> pow2 k"
  by (simp add: pow2_powi power_int_increasing)

lemma pow2_strict_mono: "j < k \<Longrightarrow> pow2 j < pow2 k"
  by (simp add: pow2_powi power_int_strict_increasing)

lemma pow2_0: "pow2 0 = 1"
  by (simp add: pow2_def)

lemma pow2_1: "pow2 1 = 2"
  by (simp add: pow2_def)

lemma expoUp_eq:
  "0 \<le> e \<Longrightarrow> e \<le> int n \<Longrightarrow> pow2 e \<le> a \<Longrightarrow> a < pow2 (e + 1) \<Longrightarrow> expoUp n a = e"
proof (induction n arbitrary: a e)
  case 0
  then show ?case by simp
next
  case (Suc n)
  show ?case
  proof (cases "a < 2")
    case True
    have "\<not> 1 \<le> e"
    proof
      assume "1 \<le> e"
      then have "pow2 1 \<le> pow2 e" by (rule pow2_mono)
      with Suc.prems(3) True show False by (simp add: pow2_1)
    qed
    with Suc.prems(1) have "e = 0" by simp
    with True show ?thesis by simp
  next
    case False
    have "e \<noteq> 0"
      using Suc.prems(4) False by (auto simp: pow2_1)
    with Suc.prems(1) have e: "0 \<le> e - 1" by simp
    from Suc.prems(2) have n: "e - 1 \<le> int n" by simp
    have lo: "pow2 (e - 1) \<le> a / 2"
      using Suc.prems(3) by (simp add: pow2_pred)
    have hi: "a / 2 < pow2 (e - 1 + 1)"
      using Suc.prems(4) pow2_Suc [of e] by simp
    from Suc.IH [OF e n lo hi] False show ?thesis by simp
  qed
qed

lemma expoDown_cap: "0 \<le> a \<Longrightarrow> a < pow2 (- int n) \<Longrightarrow> expoDown n a = - int n"
proof (induction n arbitrary: a)
  case 0
  then show ?case by simp
next
  case (Suc n)
  have "- int (Suc n) = - int n - 1" by simp
  then have p: "pow2 (- int (Suc n)) = pow2 (- int n) / 2"
    by (simp only: pow2_pred)
  have "pow2 (- int n) \<le> pow2 0" by (rule pow2_mono) simp
  with Suc.prems(2) p have a: "a < 1" by (simp add: pow2_0)
  from Suc.prems p have "0 \<le> 2 * a" "2 * a < pow2 (- int n)" by simp_all
  from Suc.IH [OF this] a show ?case by simp
qed

lemma expoDown_eq:
  "e \<le> 0 \<Longrightarrow> - int n \<le> e \<Longrightarrow> pow2 e \<le> a \<Longrightarrow> a < pow2 (e + 1) \<Longrightarrow> expoDown n a = e"
proof (induction n arbitrary: a e)
  case 0
  then show ?case by simp
next
  case (Suc n)
  show ?case
  proof (cases "1 \<le> a")
    case True
    have "\<not> e + 1 \<le> 0"
    proof
      assume "e + 1 \<le> 0"
      then have "pow2 (e + 1) \<le> pow2 0" by (rule pow2_mono)
      with Suc.prems(4) True show False by (simp add: pow2_0)
    qed
    with Suc.prems(1) have "e = 0" by simp
    with True show ?thesis by simp
  next
    case False
    have "e \<noteq> 0"
      using Suc.prems(3) False by (auto simp: pow2_0)
    with Suc.prems(1) have e: "e + 1 \<le> 0" by simp
    from Suc.prems(2) have n: "- int n \<le> e + 1" by simp
    have lo: "pow2 (e + 1) \<le> 2 * a"
      using Suc.prems(3) by (simp add: pow2_Suc)
    have hi: "2 * a < pow2 (e + 1 + 1)"
      using Suc.prems(4) pow2_Suc [of "e + 1"] by simp
    from Suc.IH [OF e n lo hi] False show ?thesis by simp
  qed
qed

lemma exponent_normal:
  assumes "- 1022 \<le> e" and "e \<le> 1023" and "pow2 e \<le> a" and "a < pow2 (e + 1)"
  shows "exponent a = e"
proof (cases "1 \<le> a")
  case True
  have "\<not> e + 1 \<le> 0"
  proof
    assume "e + 1 \<le> 0"
    then have "pow2 (e + 1) \<le> pow2 0" by (rule pow2_mono)
    with assms(4) True show False by (simp add: pow2_0)
  qed
  then have "0 \<le> e" by simp
  moreover from assms(2) have "e \<le> int 1024" by simp
  ultimately have "expoUp 1024 a = e"
    using assms(3,4) by (rule expoUp_eq)
  with True show ?thesis by (simp add: exponent_def)
next
  case False
  have "\<not> 0 < e"
  proof
    assume "0 < e"
    then have "pow2 0 \<le> pow2 e" by (intro pow2_mono) simp
    with assms(3) False show False by (simp add: pow2_0)
  qed
  then have "e \<le> 0" by simp
  moreover from assms(1) have "- int 1022 \<le> e" by simp
  ultimately have "expoDown 1022 a = e"
    using assms(3,4) by (rule expoDown_eq)
  with False show ?thesis by (simp add: exponent_def)
qed

lemma exponent_subnormal:
  assumes "0 \<le> a" and "a < pow2 (- 1022)"
  shows "exponent a = - 1022"
proof -
  have "pow2 (- 1022) \<le> pow2 0" by (rule pow2_mono) simp
  with assms(2) have "\<not> 1 \<le> a" by (simp add: pow2_0)
  moreover have "expoDown 1022 a = - int 1022"
    using assms by (intro expoDown_cap) simp_all
  ultimately show ?thesis by (simp add: exponent_def)
qed

lemma floor_rat_numeral: "\<lfloor>(numeral a / numeral b :: rat)\<rfloor> = numeral a div numeral b"
  using floor_divide_of_int_eq [of "numeral a" "numeral b", where ?'a = rat] by simp

lemma floor_rat_one_numeral: "\<lfloor>(1 / numeral b :: rat)\<rfloor> = 1 div numeral b"
  using floor_divide_of_int_eq [of 1 "numeral b", where ?'a = rat] by simp

lemma round64_normal:
  assumes "- 1022 \<le> e" and "e \<le> 1023" and "pow2 e \<le> x" and "x < pow2 (e + 1)"
    and "roundHalfEven (x / pow2 (e - 52)) = m"
    and "of_int m * pow2 (e - 52) = r" and "r < pow2 1024"
  shows "round64 x = Finite r"
proof -
  have "0 < pow2 e" by (rule pow2_pos)
  with assms(3) have x: "0 < x" by simp
  have "exponent x = e"
    using assms(1-4) by (rule exponent_normal)
  with x assms(5-7) show ?thesis
    by (simp add: round64_def roundMagnitude_def Let_def)
qed

lemma round64_subnormal:
  assumes "0 < x" and "x < pow2 (- 1022)"
    and "roundHalfEven (x / pow2 (- 1074)) = m"
    and "of_int m * pow2 (- 1074) = r"
  shows "round64 x = Finite r"
proof -
  have e: "exponent x = - 1022"
    using assms(1,2) by (intro exponent_subnormal) simp_all
  have "\<bar>roundMagnitude x - x\<bar> \<le> pow2 (exponent x - 52) / 2"
    by (rule roundMagnitude_error)
  with e have "\<bar>roundMagnitude x - x\<bar> \<le> pow2 (- 1074) / 2" by simp
  then have "roundMagnitude x \<le> x + pow2 (- 1074) / 2" by linarith
  also have "\<dots> < pow2 (- 1022) + pow2 (- 1022)"
    using assms(2) pow2_strict_mono [of "- 1074" "- 1022"] pow2_pos [of "- 1074"] by simp
  also have "\<dots> \<le> pow2 1024"
    using pow2_mono [of "- 1021" 1024] pow2_Suc [of "- 1022"] by simp
  finally have "\<not> pow2 1024 \<le> roundMagnitude x" by simp
  moreover have "roundMagnitude x = r"
    using assms(3,4) e by (simp add: roundMagnitude_def Let_def)
  ultimately show ?thesis
    using assms(1) by (simp add: round64_def Let_def)
qed

lemma round64_0: "round64 0 = Finite 0"
proof -
  have "exponent 0 = - 1022"
    by (rule exponent_subnormal) (simp_all add: pow2_pos)
  then have "roundMagnitude 0 = 0"
    by (simp add: roundMagnitude_def roundHalfEven_def Let_def)
  then show ?thesis
    using pow2_pos [of 1024] by (simp add: round64_def Let_def)
qed

lemmas b64 = pow2_def roundHalfEven_def Let_def floor_rat_numeral floor_rat_one_numeral

section \<open>Values of the examples in binary64\<close>

lemma num_2: "round64 2 = Finite 2"
  by (rule round64_normal [where e = 1 and m = 4503599627370496]) (simp_all add: b64)

lemma num_0_7: "round64 0.7 = Finite (3152519739159347 / 2 ^ 52)"
  by (rule round64_normal [where e = "- 1" and m = 6305039478318694]) (simp_all add: b64)

lemma num_0_69: "round64 0.69 = Finite (1553741871442821 / 2 ^ 51)"
  by (rule round64_normal [where e = "- 1" and m = 6214967485771284]) (simp_all add: b64)

lemma rounded_ref_y: "round64 0.1 = Finite (3602879701896397 / 2 ^ 55)"
  by (rule round64_normal [where e = "- 4" and m = 7205759403792794]) (simp_all add: b64)

lemma rounded_ref_height: "round64 0.2 = Finite (3602879701896397 / 2 ^ 54)"
  by (rule round64_normal [where e = "- 3" and m = 7205759403792794]) (simp_all add: b64)

lemma rounded_word_y: "round64 0.24 = Finite (1080863910568919 / 2 ^ 52)"
  by (rule round64_normal [where e = "- 3" and m = 8646911284551352]) (simp_all add: b64)

lemma rounded_ref_half:
  "ddiv (Finite (3602879701896397 / 2 ^ 54)) (Finite 2)
     = Finite (3602879701896397 / 2 ^ 55)"
proof -
  have "ddiv (Finite (3602879701896397 / 2 ^ 54)) (Finite 2)
          = round64 ((3602879701896397 / 2 ^ 54) / 2)"
    by simp
  also have "\<dots> = Finite (3602879701896397 / 2 ^ 55)"
    by (rule round64_normal [where e = "- 4" and m = 7205759403792794]) (simp_all add: b64)
  finally show ?thesis .
qed

lemma rounded_ref_centre:
  "dadd (Finite (3602879701896397 / 2 ^ 55)) (Finite (3602879701896397 / 2 ^ 55))
     = Finite (3602879701896397 / 2 ^ 54)"
proof -
  have "dadd (Finite (3602879701896397 / 2 ^ 55)) (Finite (3602879701896397 / 2 ^ 55))
          = round64 ((3602879701896397 / 2 ^ 55) + (3602879701896397 / 2 ^ 55))"
    by simp
  also have "\<dots> = Finite (3602879701896397 / 2 ^ 54)"
    by (rule round64_normal [where e = "- 3" and m = 7205759403792794]) (simp_all add: b64)
  finally show ?thesis .
qed

lemma rounded_word_centre:
  "dadd (Finite (1080863910568919 / 2 ^ 52)) (Finite (3602879701896397 / 2 ^ 55))
     = Finite (3062447746611937 / 2 ^ 53)"
proof -
  have "dadd (Finite (1080863910568919 / 2 ^ 52)) (Finite (3602879701896397 / 2 ^ 55))
          = round64 ((1080863910568919 / 2 ^ 52) + (3602879701896397 / 2 ^ 55))"
    by simp
  also have "\<dots> = Finite (3062447746611937 / 2 ^ 53)"
    by (rule round64_normal [where e = "- 2" and m = 6124895493223874]) (simp_all add: b64)
  finally show ?thesis .
qed

lemma rounded_difference:
  "dsub (Finite (3062447746611937 / 2 ^ 53)) (Finite (3602879701896397 / 2 ^ 54))
     = Finite (2522015791327477 / 2 ^ 54)"
proof -
  have "dsub (Finite (3062447746611937 / 2 ^ 53)) (Finite (3602879701896397 / 2 ^ 54))
          = round64 ((3062447746611937 / 2 ^ 53) - (3602879701896397 / 2 ^ 54))"
    by (simp add: dsub_def dneg_def)
  also have "\<dots> = Finite (2522015791327477 / 2 ^ 54)"
    by (rule round64_normal [where e = "- 3" and m = 5044031582654954]) (simp_all add: b64)
  finally show ?thesis .
qed

lemma rounded_abs: "dabs (Finite (2522015791327477 / 2 ^ 54)) = Finite (2522015791327477 / 2 ^ 54)"
  by (simp add: dabs_def)

lemma rounded_product:
  "dmul (Finite (3602879701896397 / 2 ^ 54)) (Finite (3152519739159347 / 2 ^ 52))
     = Finite (5044031582654955 / 2 ^ 55)"
proof -
  have "dmul (Finite (3602879701896397 / 2 ^ 54)) (Finite (3152519739159347 / 2 ^ 52))
          = round64 ((3602879701896397 / 2 ^ 54) * (3152519739159347 / 2 ^ 52))"
    by simp
  also have "\<dots> = Finite (5044031582654955 / 2 ^ 55)"
    by (rule round64_normal [where e = "- 3" and m = 5044031582654955]) (simp_all add: b64)
  finally show ?thesis .
qed

lemma rounded_distance:
  "dabs (dsub (dadd (round64 0.24) (ddiv (round64 0.2) (round64 2)))
              (dadd (round64 0.1) (ddiv (round64 0.2) (round64 2))))
     = Finite (2522015791327477 / 2 ^ 54)"
  by (simp only: num_2 rounded_ref_y rounded_ref_height rounded_word_y rounded_ref_half
      rounded_ref_centre rounded_word_centre rounded_difference rounded_abs)

lemma rounded_threshold:
  "dmul (round64 0.2) (round64 0.7) = Finite (5044031582654955 / 2 ^ 55)"
  by (simp only: rounded_ref_height num_0_7 rounded_product)

lemma tiny_ref_y: "round64 0 = Finite 0"
  by (simp add: round64_0)

lemma tiny_ref_height: "round64 (5 / 10 ^ 324) = Finite (1 / 2 ^ 1074)"
  by (rule round64_subnormal [where m = 1]) (simp_all add: b64)

lemma tiny_ref_half:
  "ddiv (Finite (1 / 2 ^ 1074)) (Finite 2)
     = Finite 0"
proof -
  have "ddiv (Finite (1 / 2 ^ 1074)) (Finite 2)
          = round64 ((1 / 2 ^ 1074) / 2)"
    by simp
  also have "\<dots> = Finite 0"
    by (rule round64_subnormal [where m = 0]) (simp_all add: b64)
  finally show ?thesis .
qed

lemma tiny_ref_centre:
  "dadd (Finite 0) (Finite 0)
     = Finite 0"
proof -
  have "dadd (Finite 0) (Finite 0)
          = round64 (0 + 0)"
    by simp
  also have "\<dots> = Finite 0"
    by (simp add: round64_0)
  finally show ?thesis .
qed

lemma tiny_word_half:
  "ddiv (Finite 0) (Finite 2)
     = Finite 0"
proof -
  have "ddiv (Finite 0) (Finite 2)
          = round64 (0 / 2)"
    by simp
  also have "\<dots> = Finite 0"
    by (simp add: round64_0)
  finally show ?thesis .
qed

lemma tiny_word_centre:
  "dadd (Finite (1 / 2 ^ 1074)) (Finite 0)
     = Finite (1 / 2 ^ 1074)"
proof -
  have "dadd (Finite (1 / 2 ^ 1074)) (Finite 0)
          = round64 ((1 / 2 ^ 1074) + 0)"
    by simp
  also have "\<dots> = Finite (1 / 2 ^ 1074)"
    by (rule round64_subnormal [where m = 1]) (simp_all add: b64)
  finally show ?thesis .
qed

lemma tiny_difference:
  "dsub (Finite (1 / 2 ^ 1074)) (Finite 0)
     = Finite (1 / 2 ^ 1074)"
proof -
  have "dsub (Finite (1 / 2 ^ 1074)) (Finite 0)
          = round64 ((1 / 2 ^ 1074) - 0)"
    by (simp add: dsub_def dneg_def)
  also have "\<dots> = Finite (1 / 2 ^ 1074)"
    by (rule round64_subnormal [where m = 1]) (simp_all add: b64)
  finally show ?thesis .
qed

lemma tiny_abs: "dabs (Finite (1 / 2 ^ 1074)) = Finite (1 / 2 ^ 1074)"
  by (simp add: dabs_def)

lemma tiny_product:
  "dmul (Finite (1 / 2 ^ 1074)) (Finite (3152519739159347 / 2 ^ 52))
     = Finite (1 / 2 ^ 1074)"
proof -
  have "dmul (Finite (1 / 2 ^ 1074)) (Finite (3152519739159347 / 2 ^ 52))
          = round64 ((1 / 2 ^ 1074) * (3152519739159347 / 2 ^ 52))"
    by simp
  also have "\<dots> = Finite (1 / 2 ^ 1074)"
    by (rule round64_subnormal [where m = 1]) (simp_all add: b64)
  finally show ?thesis .
qed

lemma tiny_distance:
  "dabs (dsub (dadd (round64 (5 / 10 ^ 324)) (ddiv (round64 0) (round64 2)))
              (dadd (round64 0) (ddiv (round64 (5 / 10 ^ 324)) (round64 2))))
     = Finite (1 / 2 ^ 1074)"
  by (simp only: num_2 tiny_ref_y tiny_ref_height tiny_ref_half tiny_ref_centre
      tiny_word_half tiny_word_centre tiny_difference tiny_abs)

lemma tiny_threshold:
  "dmul (round64 (5 / 10 ^ 324)) (round64 0.7) = Finite (1 / 2 ^ 1074)"
  by (simp only: tiny_ref_height num_0_7 tiny_product)

lemma tiny_product_69:
  "dmul (Finite (1 / 2 ^ 1074)) (Finite (1553741871442821 / 2 ^ 51))
     = Finite (1 / 2 ^ 1074)"
proof -
  have "dmul (Finite (1 / 2 ^ 1074)) (Finite (1553741871442821 / 2 ^ 51))
          = round64 ((1 / 2 ^ 1074) * (1553741871442821 / 2 ^ 51))"
    by simp
  also have "\<dots> = Finite (1 / 2 ^ 1074)"
    by (rule round64_subnormal [where m = 1]) (simp_all add: b64)
  finally show ?thesis .
qed

lemma tiny_distance_69:
  "dmul (round64 (5 / 10 ^ 324)) (round64 0.69) = Finite (1 / 2 ^ 1074)"
  by (simp only: tiny_ref_height num_0_69 tiny_product_69)

lemma edge_ref_height: "round64 1 = Finite 1"
  by (rule round64_normal [where e = 0 and m = 4503599627370496]) (simp_all add: b64)

lemma edge_word_y: "round64 (5404319552844595 / 2 ^ 52) = Finite (5404319552844595 / 2 ^ 52)"
  by (rule round64_normal [where e = 0 and m = 5404319552844595]) (simp_all add: b64)

lemma edge_ref_half:
  "ddiv (Finite 1) (Finite 2)
     = Finite (1 / 2 ^ 1)"
proof -
  have "ddiv (Finite 1) (Finite 2)
          = round64 (1 / 2)"
    by simp
  also have "\<dots> = Finite (1 / 2 ^ 1)"
    by (rule round64_normal [where e = "- 1" and m = 4503599627370496]) (simp_all add: b64)
  finally show ?thesis .
qed

lemma edge_ref_centre:
  "dadd (Finite 0) (Finite (1 / 2 ^ 1))
     = Finite (1 / 2 ^ 1)"
proof -
  have "dadd (Finite 0) (Finite (1 / 2 ^ 1))
          = round64 (0 + (1 / 2 ^ 1))"
    by simp
  also have "\<dots> = Finite (1 / 2 ^ 1)"
    by (rule round64_normal [where e = "- 1" and m = 4503599627370496]) (simp_all add: b64)
  finally show ?thesis .
qed

lemma edge_word_centre:
  "dadd (Finite (5404319552844595 / 2 ^ 52)) (Finite 0)
     = Finite (5404319552844595 / 2 ^ 52)"
proof -
  have "dadd (Finite (5404319552844595 / 2 ^ 52)) (Finite 0)
          = round64 ((5404319552844595 / 2 ^ 52) + 0)"
    by simp
  also have "\<dots> = Finite (5404319552844595 / 2 ^ 52)"
    by (rule round64_normal [where e = 0 and m = 5404319552844595]) (simp_all add: b64)
  finally show ?thesis .
qed

lemma edge_difference:
  "dsub (Finite (5404319552844595 / 2 ^ 52)) (Finite (1 / 2 ^ 1))
     = Finite (3152519739159347 / 2 ^ 52)"
proof -
  have "dsub (Finite (5404319552844595 / 2 ^ 52)) (Finite (1 / 2 ^ 1))
          = round64 ((5404319552844595 / 2 ^ 52) - (1 / 2 ^ 1))"
    by (simp add: dsub_def dneg_def)
  also have "\<dots> = Finite (3152519739159347 / 2 ^ 52)"
    by (rule round64_normal [where e = "- 1" and m = 6305039478318694]) (simp_all add: b64)
  finally show ?thesis .
qed

lemma edge_abs: "dabs (Finite (3152519739159347 / 2 ^ 52)) = Finite (3152519739159347 / 2 ^ 52)"
  by (simp add: dabs_def)

lemma edge_product:
  "dmul (Finite 1) (Finite (3152519739159347 / 2 ^ 52))
     = Finite (3152519739159347 / 2 ^ 52)"
proof -
  have "dmul (Finite 1) (Finite (3152519739159347 / 2 ^ 52))
          = round64 (1 * (3152519739159347 / 2 ^ 52))"
    by simp
  also have "\<dots> = Finite (3152519739159347 / 2 ^ 52)"
    by (rule round64_normal [where e = "- 1" and m = 6305039478318694]) (simp_all add: b64)
  finally show ?thesis .
qed

lemma edge_distance:
  "dabs (dsub (dadd (round64 (5404319552844595 / 2 ^ 52)) (ddiv (round64 0) (round64 2)))
              (dadd (round64 0) (ddiv (round64 1) (round64 2))))
     = Finite (3152519739159347 / 2 ^ 52)"
  by (simp only: num_2 tiny_ref_y edge_ref_height edge_word_y edge_ref_half
      edge_ref_centre tiny_word_half edge_word_centre edge_difference edge_abs)

lemma edge_threshold:
  "dmul (round64 1) (round64 0.7) = Finite (3152519739159347 / 2 ^ 52)"
  by (simp only: edge_ref_height num_0_7 edge_product)

lemma inside_word_y: "round64 (2679641778285445 / 2 ^ 51) = Finite (2679641778285445 / 2 ^ 51)"
  by (rule round64_normal [where e = 0 and m = 5359283556570890]) (simp_all add: b64)

lemma inside_word_centre:
  "dadd (Finite (2679641778285445 / 2 ^ 51)) (Finite 0)
     = Finite (2679641778285445 / 2 ^ 51)"
proof -
  have "dadd (Finite (2679641778285445 / 2 ^ 51)) (Finite 0)
          = round64 ((2679641778285445 / 2 ^ 51) + 0)"
    by simp
  also have "\<dots> = Finite (2679641778285445 / 2 ^ 51)"
    by (rule round64_normal [where e = 0 and m = 5359283556570890]) (simp_all add: b64)
  finally show ?thesis .
qed

lemma inside_difference:
  "dsub (Finite (2679641778285445 / 2 ^ 51)) (Finite (1 / 2 ^ 1))
     = Finite (1553741871442821 / 2 ^ 51)"
proof -
  have "dsub (Finite (2679641778285445 / 2 ^ 51)) (Finite (1 / 2 ^ 1))
          = round64 ((2679641778285445 / 2 ^ 51) - (1 / 2 ^ 1))"
    by (simp add: dsub_def dneg_def)
  also have "\<dots> = Finite (1553741871442821 / 2 ^ 51)"
    by (rule round64_normal [where e = "- 1" and m = 6214967485771284]) (simp_all add: b64)
  finally show ?thesis .
qed

lemma inside_abs: "dabs (Finite (1553741871442821 / 2 ^ 51)) = Finite (1553741871442821 / 2 ^ 51)"
  by (simp add: dabs_def)

lemma inside_distance:
  "dabs (dsub (dadd (round64 (2679641778285445 / 2 ^ 51)) (ddiv (round64 0) (round64 2)))
              (dadd (round64 0) (ddiv (round64 1) (round64 2))))
     = Finite (1553741871442821 / 2 ^ 51)"
  by (simp only: num_2 tiny_ref_y edge_ref_height inside_word_y edge_ref_half
      edge_ref_centre tiny_word_half inside_word_centre inside_difference inside_abs)

lemma inside_threshold:
  "dmul (round64 1) (round64 0.7) = Finite (3152519739159347 / 2 ^ 52)"
  by (simp only: edge_ref_height num_0_7 edge_product)

lemma inside_product_69:
  "dmul (Finite 1) (Finite (1553741871442821 / 2 ^ 51))
     = Finite (1553741871442821 / 2 ^ 51)"
proof -
  have "dmul (Finite 1) (Finite (1553741871442821 / 2 ^ 51))
          = round64 (1 * (1553741871442821 / 2 ^ 51))"
    by simp
  also have "\<dots> = Finite (1553741871442821 / 2 ^ 51)"
    by (rule round64_normal [where e = "- 1" and m = 6214967485771284]) (simp_all add: b64)
  finally show ?thesis .
qed

lemma inside_distance_69:
  "dmul (round64 1) (round64 0.69) = Finite (1553741871442821 / 2 ^ 51)"
  by (simp only: edge_ref_height num_0_69 inside_product_69)

lemma top_ref_height: "round64 0.05 = Finite (3602879701896397 / 2 ^ 56)"
  by (rule round64_normal [where e = "- 5" and m = 7205759403792794]) (simp_all add: b64)

lemma top_word_y: "round64 0.5 = Finite (1 / 2 ^ 1)"
  by (rule round64_normal [where e = "- 1" and m = 4503599627370496]) (simp_all add: b64)

lemma top_ref_half:
  "ddiv (Finite (3602879701896397 / 2 ^ 56)) (Finite 2)
     = Finite (3602879701896397 / 2 ^ 57)"
proof -
  have "ddiv (Finite (3602879701896397 / 2 ^ 56)) (Finite 2)
          = round64 ((3602879701896397 / 2 ^ 56) / 2)"
    by simp
  also have "\<dots> = Finite (3602879701896397 / 2 ^ 57)"
    by (rule round64_normal [where e = "- 6" and m = 7205759403792794]) (simp_all add: b64)
  finally show ?thesis .
qed

lemma top_ref_centre:
  "dadd (Finite (3602879701896397 / 2 ^ 55)) (Finite (3602879701896397 / 2 ^ 57))
     = Finite (1 / 2 ^ 3)"
proof -
  have "dadd (Finite (3602879701896397 / 2 ^ 55)) (Finite (3602879701896397 / 2 ^ 57))
          = round64 ((3602879701896397 / 2 ^ 55) + (3602879701896397 / 2 ^ 57))"
    by simp
  also have "\<dots> = Finite (1 / 2 ^ 3)"
    by (rule round64_normal [where e = "- 3" and m = 4503599627370496]) (simp_all add: b64)
  finally show ?thesis .
qed

lemma top_word_centre:
  "dadd (Finite (1 / 2 ^ 1)) (Finite (3602879701896397 / 2 ^ 57))
     = Finite (4728779608739021 / 2 ^ 53)"
proof -
  have "dadd (Finite (1 / 2 ^ 1)) (Finite (3602879701896397 / 2 ^ 57))
          = round64 ((1 / 2 ^ 1) + (3602879701896397 / 2 ^ 57))"
    by simp
  also have "\<dots> = Finite (4728779608739021 / 2 ^ 53)"
    by (rule round64_normal [where e = "- 1" and m = 4728779608739021]) (simp_all add: b64)
  finally show ?thesis .
qed

lemma top_difference:
  "dsub (Finite (4728779608739021 / 2 ^ 53)) (Finite (1 / 2 ^ 3))
     = Finite (3602879701896397 / 2 ^ 53)"
proof -
  have "dsub (Finite (4728779608739021 / 2 ^ 53)) (Finite (1 / 2 ^ 3))
          = round64 ((4728779608739021 / 2 ^ 53) - (1 / 2 ^ 3))"
    by (simp add: dsub_def dneg_def)
  also have "\<dots> = Finite (3602879701896397 / 2 ^ 53)"
    by (rule round64_normal [where e = "- 2" and m = 7205759403792794]) (simp_all add: b64)
  finally show ?thesis .
qed

lemma top_abs: "dabs (Finite (3602879701896397 / 2 ^ 53)) = Finite (3602879701896397 / 2 ^ 53)"
  by (simp add: dabs_def)

lemma top_product:
  "dmul (Finite (3602879701896397 / 2 ^ 56)) (Finite (3152519739159347 / 2 ^ 52))
     = Finite (5044031582654955 / 2 ^ 57)"
proof -
  have "dmul (Finite (3602879701896397 / 2 ^ 56)) (Finite (3152519739159347 / 2 ^ 52))
          = round64 ((3602879701896397 / 2 ^ 56) * (3152519739159347 / 2 ^ 52))"
    by simp
  also have "\<dots> = Finite (5044031582654955 / 2 ^ 57)"
    by (rule round64_normal [where e = "- 5" and m = 5044031582654955]) (simp_all add: b64)
  finally show ?thesis .
qed

lemma top_distance:
  "dabs (dsub (dadd (round64 0.5) (ddiv (round64 0.05) (round64 2)))
              (dadd (round64 0.1) (ddiv (round64 0.05) (round64 2))))
     = Finite (3602879701896397 / 2 ^ 53)"
  by (simp only: num_2 rounded_ref_y top_ref_height top_word_y top_ref_half
      top_ref_centre top_word_centre top_difference top_abs)

lemma top_threshold:
  "dmul (round64 0.05) (round64 0.7) = Finite (5044031582654955 / 2 ^ 57)"
  by (simp only: top_ref_height num_0_7 top_product)

lemma level_difference:
  "dsub (Finite (4728779608739021 / 2 ^ 53)) (Finite (4728779608739021 / 2 ^ 53))
     = Finite 0"
proof -
  have "dsub (Finite (4728779608739021 / 2 ^ 53)) (Finite (4728779608739021 / 2 ^ 53))
          = round64 ((4728779608739021 / 2 ^ 53) - (4728779608739021 / 2 ^ 53))"
    by (simp add: dsub_def dneg_def)
  also have "\<dots> = Finite 0"
    by (simp add: round64_0)
  finally show ?thesis .
qed

lemma level_abs: "dabs (Finite 0) = Finite 0"
  by (simp add: dabs_def)

lemma level_distance:
  "dabs (dsub (dadd (round64 0.5) (ddiv (round64 0.05) (round64 2)))
              (dadd (round64 0.5) (ddiv (round64 0.05) (round64 2))))
     = Finite 0"
  by (simp only: num_2 top_word_y top_ref_height top_ref_half top_word_centre
      level_difference level_abs)

lemma level_threshold:
  "dmul (round64 0.05) (round64 0.7) = Finite (5044031582654955 / 2 ^ 57)"
  by (simp only: top_ref_height num_0_7 top_product)

section \<open>The threshold of the grouping test\<close>

lemma dlt_irrefl: "\<not> dlt a a"
  by (cases a) simp_all

lemma product_069_below_07:
  assumes "round64 height = Finite h" and "pow2 (- 1022) \<le> h"
  shows "dlt (dmul (Finite h) (round64 0.69)) (dmul (Finite h) (round64 0.7))"
proof -
  let ?c69 = "1553741871442821 / 2 ^ 51 :: rat"
  let ?c7 = "3152519739159347 / 2 ^ 52 :: rat"
  let ?u = "h * pow2 (- 52)"
  have h0: "0 < h"
    using assms(2) pow2_pos [of "- 1022"] by simp
  have hmax: "h < pow2 1024"
    using round64_Finite_bound [OF assms(1)] by simp
  have tiny: "pow2 (- 1074) \<le> ?u"
  proof -
    have "pow2 (- 1074) = pow2 (- 1022) * pow2 (- 52)"
      using pow2_add [of "- 1022" "- 52"] by simp
    also have "\<dots> \<le> h * pow2 (- 52)"
      using assms(2) pow2_pos [of "- 52"] by (simp only: mult_le_cancel_right_pos)
    finally show ?thesis .
  qed
  have p52: "pow2 (- 52) = 1 / 2 ^ 52"
    by (simp add: pow2_def)
  have ulp: "pow2 (exponent (h * c) - 52) \<le> ?u" if "0 < c" and "c \<le> 1" for c
  proof -
    from h0 that(1) have pos: "0 < h * c" by simp
    from h0 that(2) have "h * c \<le> h" by simp
    then have "h * c * pow2 (- 52) \<le> ?u"
      using pow2_pos [of "- 52"] by (simp only: mult_le_cancel_right_pos)
    with tiny have "max (h * c * pow2 (- 52)) (pow2 (- 1074)) \<le> ?u" by simp
    with ulp_bound [OF pos] show ?thesis by linarith
  qed
  have near: "\<bar>roundMagnitude (h * c) - h * c\<bar> \<le> ?u / 2" if "0 < c" and "c \<le> 1" for c
    using roundMagnitude_error [of "h * c"] ulp [OF that] by linarith
  have c69: "0 < ?c69" "?c69 \<le> 1" and c7: "0 < ?c7" "?c7 \<le> 1"
    by simp_all
  note n69 = near [OF c69] and n7 = near [OF c7]
  have gap: "h * ?c69 + ?u / 2 < h * ?c7 - ?u / 2"
  proof -
    have "h * ?c7 - ?u / 2 - (h * ?c69 + ?u / 2) = h * (?c7 - ?c69 - 1 / 2 ^ 52)"
      by (simp add: p52 algebra_simps)
    moreover have "0 < h * (?c7 - ?c69 - 1 / 2 ^ 52)"
      using h0 by (intro mult_pos_pos) simp_all
    ultimately show ?thesis by linarith
  qed
  have less: "roundMagnitude (h * ?c69) < roundMagnitude (h * ?c7)"
    using n69 n7 gap by linarith
  have top: "roundMagnitude (h * ?c7) < pow2 1024"
  proof -
    have "h * ?c7 + ?u / 2 = h * (?c7 + 1 / 2 ^ 53)"
      by (simp add: p52 algebra_simps)
    also have "\<dots> \<le> h * 1"
      using h0 by (intro mult_left_mono) simp_all
    finally have "h * ?c7 + ?u / 2 \<le> h * 1" .
    with n7 hmax show ?thesis by linarith
  qed
  from h0 have pos: "0 < h * ?c69" "0 < h * ?c7" by simp_all
  from less top have top69: "roundMagnitude (h * ?c69) < pow2 1024" by simp
  have "dmul (Finite h) (round64 0.69) = Finite (roundMagnitude (h * ?c69))"
    by (simp only: num_0_69 dmul.simps round64_pos [OF pos(1) top69])
  moreover have "dmul (Finite h) (round64 0.7) = Finite (roundMagnitude (h * ?c7))"
    by (simp only: num_0_7 dmul.simps round64_pos [OF pos(2) top])
  ultimately show ?thesis
    using less by simp
qed

lemma groupLoop64_step:
  assumes "boundingBox ref = Some refBox" and "boundingBox word = Some wordBox"
  shows "groupLoop64 earlier (ref # line) (word # rest) =
           (if sameLine64 refBox wordBox then groupLoop64 earlier ((ref # line) @ [word]) rest
            else groupLoop64 (earlier @ [ref # line]) [word] rest)"
  by (simp add: assms)

lemma groupLines64_pair:
  assumes "boundingBox ref = Some refBox" and "boundingBox word = Some wordBox"
  shows "groupLines64 [ref, word] =
           (if sameLine64 refBox wordBox then Inr [[ref, word]] else Inr [[ref], [word]])"
  by (simp add: groupLines64_def assms)

lemma sameLine64_unfold:
  "sameLine64 \<lparr>bb_x = rx, bb_y = ry, bb_width = rw, bb_height = rh\<rparr>
              \<lparr>bb_x = wx, bb_y = wy, bb_width = ww, bb_height = wh\<rparr>
     = dlt (dabs (dsub (dadd (round64 wy) (ddiv (round64 wh) (round64 2)))
                       (dadd (round64 ry) (ddiv (round64 rh) (round64 2)))))
           (dmul (round64 rh) (round64 0.7))"
  by (simp add: sameLine64_def centerY64_def)

text \<open>The claim C5 as stated fails on the values the program computes. For the words
  with \<open>y = 0.1\<close>, height \<open>0.2\<close> and \<open>y = 0.24\<close>, height \<open>0.2\<close> the distance of the
  decimal centres is exactly \<open>0.7 * 0.2\<close>, but the computed distance is below the
  computed threshold and the words are put on one line. For a reference word of height
  \<open>5e-324\<close> a word whose computed distance is the computed \<open>0.69 * height\<close> starts a new
  line.\<close>

theorem decimal_boundary_counterexample:
  "\<bar>(0.24 + 0.2 / 2) - (0.1 + 0.2 / 2)\<bar> = 0.7 * (0.2 :: rat) \<and>
   dabs (dsub (dadd (round64 0.24) (ddiv (round64 0.2) (round64 2)))
              (dadd (round64 0.1) (ddiv (round64 0.2) (round64 2))))
     = Finite (2522015791327477 / 2 ^ 54) \<and>
   dmul (round64 0.2) (round64 0.7) = Finite (5044031582654955 / 2 ^ 55) \<and>
   groupLines64 [wordAt ''R'' 0.5 0.1 0.3 0.2, wordAt ''W'' 0.1 0.24 0.3 0.2]
     = Inr [[wordAt ''R'' 0.5 0.1 0.3 0.2, wordAt ''W'' 0.1 0.24 0.3 0.2]] \<and>
   round64 (5 / 10 ^ 324) = Finite (1 / 2 ^ 1074) \<and>
   dabs (dsub (dadd (round64 (5 / 10 ^ 324)) (ddiv (round64 0) (round64 2)))
              (dadd (round64 0) (ddiv (round64 (5 / 10 ^ 324)) (round64 2))))
     = dmul (round64 (5 / 10 ^ 324)) (round64 0.69) \<and>
   groupLines64 [wordAt ''R'' 0.5 0 0.3 (5 / 10 ^ 324), wordAt ''W'' 0.1 (5 / 10 ^ 324) 0.3 0]
     = Inr [[wordAt ''R'' 0.5 0 0.3 (5 / 10 ^ 324)], [wordAt ''W'' 0.1 (5 / 10 ^ 324) 0.3 0]]"
proof -
  have decimal: "\<bar>(0.24 + 0.2 / 2) - (0.1 + 0.2 / 2)\<bar> = 0.7 * (0.2 :: rat)"
    by simp
  have "dlt (Finite (2522015791327477 / 2 ^ 54)) (Finite (5044031582654955 / 2 ^ 55))"
    by simp
  then have "sameLine64 \<lparr>bb_x = 0.5, bb_y = 0.1, bb_width = 0.3, bb_height = 0.2\<rparr>
                        \<lparr>bb_x = 0.1, bb_y = 0.24, bb_width = 0.3, bb_height = 0.2\<rparr>"
    by (simp only: sameLine64_unfold rounded_distance rounded_threshold simp_thms)
  then have grouped: "groupLines64 [wordAt ''R'' 0.5 0.1 0.3 0.2, wordAt ''W'' 0.1 0.24 0.3 0.2]
     = Inr [[wordAt ''R'' 0.5 0.1 0.3 0.2, wordAt ''W'' 0.1 0.24 0.3 0.2]]"
    by (simp add: groupLines64_pair [OF wordAt_simps(2) wordAt_simps(2)])
  have equal69: "dabs (dsub (dadd (round64 (5 / 10 ^ 324)) (ddiv (round64 0) (round64 2)))
              (dadd (round64 0) (ddiv (round64 (5 / 10 ^ 324)) (round64 2))))
     = dmul (round64 (5 / 10 ^ 324)) (round64 0.69)"
    by (simp only: tiny_distance tiny_distance_69)
  have "\<not> dlt (Finite (1 / 2 ^ 1074)) (Finite (1 / 2 ^ 1074))"
    by simp
  then have "\<not> sameLine64 \<lparr>bb_x = 0.5, bb_y = 0, bb_width = 0.3, bb_height = 5 / 10 ^ 324\<rparr>
                        \<lparr>bb_x = 0.1, bb_y = 5 / 10 ^ 324, bb_width = 0.3, bb_height = 0\<rparr>"
    by (simp only: sameLine64_unfold tiny_distance tiny_threshold simp_thms)
  then have apart: "groupLines64
       [wordAt ''R'' 0.5 0 0.3 (5 / 10 ^ 324), wordAt ''W'' 0.1 (5 / 10 ^ 324) 0.3 0]
     = Inr [[wordAt ''R'' 0.5 0 0.3 (5 / 10 ^ 324)], [wordAt ''W'' 0.1 (5 / 10 ^ 324) 0.3 0]]"
    by (simp add: groupLines64_pair [OF wordAt_simps(2) wordAt_simps(2)])
  from decimal rounded_distance rounded_threshold grouped tiny_ref_height equal69 apart
  show ?thesis
    by (intro conjI)
qed

text \<open>Claim C5, as amended. The test of the grouping loop is strict and is made on the
  binary64 values the program computes: with the centres computed as \<open>y + height / 2\<close>,
  the distance as \<open>Math.abs(wordCenterY - referenceCenterY)\<close> and the threshold as
  \<open>referenceHeight * 0.7\<close>, the next word joins the current line when the computed distance
  is less than the computed threshold and starts a new line otherwise. In particular a
  word whose computed distance equals the computed threshold starts a new line, and, for
  every reference height of at least \<open>2 ^ -1022\<close> (a normal number), a word whose computed
  distance equals the computed \<open>referenceHeight * 0.69\<close> joins the current line.\<close>

theorem line_threshold_binary64:
  fixes refBox wordBox :: BoundingBox
    and referenceCenterY wordCenterY distance threshold :: double
  defines "referenceCenterY \<equiv>
      dadd (round64 (bb_y refBox)) (ddiv (round64 (bb_height refBox)) (round64 2))"
    and "wordCenterY \<equiv>
      dadd (round64 (bb_y wordBox)) (ddiv (round64 (bb_height wordBox)) (round64 2))"
    and "distance \<equiv> dabs (dsub wordCenterY referenceCenterY)"
    and "threshold \<equiv> dmul (round64 (bb_height refBox)) (round64 0.7)"
  assumes "boundingBox ref = Some refBox" and "boundingBox word = Some wordBox"
  shows "(dlt distance threshold \<longrightarrow>
            groupLoop64 earlier (ref # line) (word # rest)
              = groupLoop64 earlier ((ref # line) @ [word]) rest \<and>
            groupLines64 [ref, word] = Inr [[ref, word]]) \<and>
         (\<not> dlt distance threshold \<longrightarrow>
            groupLoop64 earlier (ref # line) (word # rest)
              = groupLoop64 (earlier @ [ref # line]) [word] rest \<and>
            groupLines64 [ref, word] = Inr [[ref], [word]]) \<and>
         (distance = threshold \<longrightarrow>
            groupLoop64 earlier (ref # line) (word # rest)
              = groupLoop64 (earlier @ [ref # line]) [word] rest \<and>
            groupLines64 [ref, word] = Inr [[ref], [word]]) \<and>
         (round64 (bb_height refBox) = Finite h \<and> pow2 (- 1022) \<le> h \<and>
          distance = dmul (round64 (bb_height refBox)) (round64 0.69) \<longrightarrow>
            groupLoop64 earlier (ref # line) (word # rest)
              = groupLoop64 earlier ((ref # line) @ [word]) rest \<and>
            groupLines64 [ref, word] = Inr [[ref, word]])"
proof -
  have test: "sameLine64 refBox wordBox = dlt distance threshold"
    by (simp add: sameLine64_def centerY64_def distance_def threshold_def
          referenceCenterY_def wordCenterY_def)
  note step = groupLoop64_step [OF assms(5,6), of earlier line rest]
    and pair = groupLines64_pair [OF assms(5,6)]
  have joins: "groupLoop64 earlier (ref # line) (word # rest)
              = groupLoop64 earlier ((ref # line) @ [word]) rest \<and>
            groupLines64 [ref, word] = Inr [[ref, word]]" if "dlt distance threshold"
    using that step pair by (simp only: test if_True simp_thms)
  have starts: "groupLoop64 earlier (ref # line) (word # rest)
              = groupLoop64 (earlier @ [ref # line]) [word] rest \<and>
            groupLines64 [ref, word] = Inr [[ref], [word]]" if "\<not> dlt distance threshold"
    using that step pair by (simp only: test if_False simp_thms)
  have equal: "\<not> dlt distance threshold" if "distance = threshold"
    using that by (simp add: dlt_irrefl)
  have inside: "dlt distance threshold"
    if "round64 (bb_height refBox) = Finite h \<and> pow2 (- 1022) \<le> h \<and>
          distance = dmul (round64 (bb_height refBox)) (round64 0.69)"
  proof -
    from that have h: "round64 (bb_height refBox) = Finite h" and n: "pow2 (- 1022) \<le> h"
      and d: "distance = dmul (round64 (bb_height refBox)) (round64 0.69)"
      by blast+
    from product_069_below_07 [OF h n] show ?thesis
      by (simp only: d threshold_def h)
  qed
  from joins starts equal inside show ?thesis
    by blast
qed

theorem line_threshold_binary64_witness:
  "boundingBox (wordAt ''R'' 0.5 0 0.3 1)
     = Some \<lparr>bb_x = 0.5, bb_y = 0, bb_width = 0.3, bb_height = 1\<rparr> \<and>
   boundingBox (wordAt ''W'' 0.1 (5404319552844595 / 2 ^ 52) 0.3 0)
     = Some \<lparr>bb_x = 0.1, bb_y = 5404319552844595 / 2 ^ 52, bb_width = 0.3, bb_height = 0\<rparr> \<and>
   dabs (dsub (dadd (round64 (5404319552844595 / 2 ^ 52)) (ddiv (round64 0) (round64 2)))
              (dadd (round64 0) (ddiv (round64 1) (round64 2))))
     = dmul (round64 1) (round64 0.7) \<and>
   \<not> dlt (dmul (round64 1) (round64 0.7)) (dmul (round64 1) (round64 0.7)) \<and>
   groupLines64 [wordAt ''R'' 0.5 0 0.3 1, wordAt ''W'' 0.1 (5404319552844595 / 2 ^ 52) 0.3 0]
     = Inr [[wordAt ''R'' 0.5 0 0.3 1],
            [wordAt ''W'' 0.1 (5404319552844595 / 2 ^ 52) 0.3 0]] \<and>
   boundingBox (wordAt ''V'' 0.1 (2679641778285445 / 2 ^ 51) 0.3 0)
     = Some \<lparr>bb_x = 0.1, bb_y = 2679641778285445 / 2 ^ 51, bb_width = 0.3, bb_height = 0\<rparr> \<and>
   round64 1 = Finite 1 \<and> pow2 (- 1022) \<le> 1 \<and>
   dabs (dsub (dadd (round64 (2679641778285445 / 2 ^ 51)) (ddiv (round64 0) (round64 2)))
              (dadd (round64 0) (ddiv (round64 1) (round64 2))))
     = dmul (round64 1) (round64 0.69) \<and>
   dlt (dmul (round64 1) (round64 0.69)) (dmul (round64 1) (round64 0.7)) \<and>
   groupLines64 [wordAt ''R'' 0.5 0 0.3 1, wordAt ''V'' 0.1 (2679641778285445 / 2 ^ 51) 0.3 0]
     = Inr [[wordAt ''R'' 0.5 0 0.3 1, wordAt ''V'' 0.1 (2679641778285445 / 2 ^ 51) 0.3 0]]"
proof -
  let ?R = "wordAt ''R'' 0.5 0 0.3 1"
  let ?W = "wordAt ''W'' 0.1 (5404319552844595 / 2 ^ 52) 0.3 0"
  let ?V = "wordAt ''V'' 0.1 (2679641778285445 / 2 ^ 51) 0.3 0"
  note r = wordAt_simps(2) [of "''R''" "0.5" 0 "0.3" 1]
    and w = wordAt_simps(2) [of "''W''" "0.1" "5404319552844595 / 2 ^ 52" "0.3" 0]
    and v = wordAt_simps(2) [of "''V''" "0.1" "2679641778285445 / 2 ^ 51" "0.3" 0]
  have one: "round64 1 = Finite 1"
    by (rule edge_ref_height)
  have normal: "pow2 (- 1022) \<le> 1"
    using pow2_mono [of "- 1022" 0] by (simp add: pow2_0)
  have onEdge: "dabs (dsub (dadd (round64 (5404319552844595 / 2 ^ 52)) (ddiv (round64 0) (round64 2)))
              (dadd (round64 0) (ddiv (round64 1) (round64 2))))
     = dmul (round64 1) (round64 0.7)"
    by (simp only: edge_distance edge_threshold)
  have inside: "dabs (dsub (dadd (round64 (2679641778285445 / 2 ^ 51)) (ddiv (round64 0) (round64 2)))
              (dadd (round64 0) (ddiv (round64 1) (round64 2))))
     = dmul (round64 1) (round64 0.69)"
    by (simp only: inside_distance inside_distance_69)
  note edgeCase = line_threshold_binary64 [OF r w, where h = 1]
  note insideCase = line_threshold_binary64 [OF r v, where h = 1]
  have refl7: "\<not> dlt (dmul (round64 1) (round64 0.7)) (dmul (round64 1) (round64 0.7))"
    by (rule dlt_irrefl)
  from edgeCase onEdge have apart: "groupLines64 [?R, ?W] = Inr [[?R], [?W]]"
    by (simp only: BoundingBox.select_convs)
  have below: "dlt (dmul (round64 1) (round64 0.69)) (dmul (round64 1) (round64 0.7))"
    by (simp only: inside_distance_69 inside_threshold) simp
  from insideCase one normal inside have together: "groupLines64 [?R, ?V] = Inr [[?R, ?V]]"
    by (simp only: BoundingBox.select_convs)
  from r w onEdge refl7 apart v one normal inside below together show ?thesis
    by (intro conjI)
qed

text \<open>On a reference word of height 0 and on the reading-order example the binary64
  test decides as the exact one.\<close>

lemma zero_height_binary64:
  assumes "round64 (bb_height refBox) = Finite 0"
  shows "\<not> sameLine64 refBox wordBox"
proof -
  have "dmul (round64 (bb_height refBox)) (round64 0.7) = Finite 0"
    by (simp add: assms num_0_7 round64_0)
  moreover have "\<not> dlt (dabs a) (Finite 0)" for a
    by (cases a) (simp_all add: dabs_def)
  ultimately show ?thesis
    by (simp add: sameLine64_def)
qed

lemma reading_order_binary64:
  "groupLines64 [wordAt ''C'' 0.2 0.1 wc 0.05, wordAt ''B'' 0.1 0.5 wb 0.05,
                 wordAt ''A'' 0.3 0.5 wa 0.05]
     = Inr [[wordAt ''C'' 0.2 0.1 wc 0.05],
            [wordAt ''B'' 0.1 0.5 wb 0.05, wordAt ''A'' 0.3 0.5 wa 0.05]]"
proof -
  have "\<not> dlt (Finite (3602879701896397 / 2 ^ 53)) (Finite (5044031582654955 / 2 ^ 57))"
    by simp
  then have apart: "\<not> sameLine64 \<lparr>bb_x = 0.2, bb_y = 0.1, bb_width = wc, bb_height = 0.05\<rparr>
                        \<lparr>bb_x = 0.1, bb_y = 0.5, bb_width = wb, bb_height = 0.05\<rparr>"
    by (simp only: sameLine64_unfold top_distance top_threshold simp_thms)
  have "dlt (Finite 0) (Finite (5044031582654955 / 2 ^ 57))"
    by simp
  then have together: "sameLine64 \<lparr>bb_x = 0.1, bb_y = 0.5, bb_width = wb, bb_height = 0.05\<rparr>
                        \<lparr>bb_x = 0.3, bb_y = 0.5, bb_width = wa, bb_height = 0.05\<rparr>"
    by (simp only: sameLine64_unfold level_distance level_threshold simp_thms)
  from apart together show ?thesis
    by (simp add: groupLines64_def wordAt_simps)
qed

section \<open>The reading-order example\<close>

text \<open>Claim C1. For the words \<open>B\<close> at \<open>(x, y) = (0.1, 0.5)\<close>, \<open>A\<close> at \<open>(0.3, 0.5)\<close>
  and \<open>C\<close> at \<open>(0.2, 0.1)\<close>, all of height \<open>0.05\<close> and of any width, given in this
  order: sorting by \<open>y\<close> gives \<open>C, B, A\<close>; grouping gives the lines \<open>[C]\<close> and
  \<open>[B, A]\<close>; the second line is ordered \<open>A, B\<close> by descending \<open>x\<close>; the reconstructed
  buffer is \<open>C\<close>, newline, \<open>A B\<close>, and loading the result makes it the editor content
  and the only snapshot of the history, with the cursor at 0.\<close>

theorem reading_order_example:
  "js_sort cmpY [wordAt ''B'' 0.1 0.5 wb 0.05, wordAt ''A'' 0.3 0.5 wa 0.05,
                 wordAt ''C'' 0.2 0.1 wc 0.05]
     = Inr [wordAt ''C'' 0.2 0.1 wc 0.05, wordAt ''B'' 0.1 0.5 wb 0.05,
            wordAt ''A'' 0.3 0.5 wa 0.05] \<and>
   groupLines [wordAt ''C'' 0.2 0.1 wc 0.05, wordAt ''B'' 0.1 0.5 wb 0.05,
               wordAt ''A'' 0.3 0.5 wa 0.05]
     = Inr [[wordAt ''C'' 0.2 0.1 wc 0.05],
            [wordAt ''B'' 0.1 0.5 wb 0.05, wordAt ''A'' 0.3 0.5 wa 0.05]] \<and>
   js_sort cmpXDesc [wordAt ''B'' 0.1 0.5 wb 0.05, wordAt ''A'' 0.3 0.5 wa 0.05]
     = Inr [wordAt ''A'' 0.3 0.5 wa 0.05, wordAt ''B'' 0.1 0.5 wb 0.05] \<and>
   reconstruct [wordAt ''B'' 0.1 0.5 wb 0.05, wordAt ''A'' 0.3 0.5 wa 0.05,
                wordAt ''C'' 0.2 0.1 wc 0.05]
     = Inr (utf16 ''C'' @ [0x0A] @ utf16 ''A B'') \<and>
   loadResult [wordAt ''B'' 0.1 0.5 wb 0.05, wordAt ''A'' 0.3 0.5 wa 0.05,
               wordAt ''C'' 0.2 0.1 wc 0.05] s
     = Inr (s\<lparr>editorText := utf16 ''C'' @ [0x0A] @ utf16 ''A B'',
              history := \<lparr>stack = [utf16 ''C'' @ [0x0A] @ utf16 ''A B''], index = 0\<rparr>,
              hasEditedSinceLoad := False\<rparr>)"
proof -
  let ?B = "wordAt ''B'' 0.1 0.5 wb 0.05"
  let ?A = "wordAt ''A'' 0.3 0.5 wa 0.05"
  let ?C = "wordAt ''C'' 0.2 0.1 wc 0.05"
  have sortY: "js_sort cmpY [?B, ?A, ?C] = Inr [?C, ?B, ?A]"
    by (simp add: cmpY_def wordAt_simps)
  have lines: "groupLines [?C, ?B, ?A] = Inr [[?C], [?B, ?A]]"
    by (simp add: groupLines_def wordAt_simps sameLine_def centerY_def)
  have sortX: "js_sort cmpXDesc [?B, ?A] = Inr [?A, ?B]"
    by (simp add: cmpXDesc_def wordAt_simps)
  have sortC: "js_sort cmpXDesc [?C] = Inr [?C]"
    by simp
  have render: "renderLines [[?C], [?B, ?A]] = Inr (utf16 ''C'' @ [0x0A] @ utf16 ''A B'')"
    by (simp add: cmpXDesc_def wordAt_simps utf16_def)
  have rec: "reconstruct [?B, ?A, ?C] = Inr (utf16 ''C'' @ [0x0A] @ utf16 ''A B'')"
    by (simp only: reconstruct_def sortY lines render sum.case)
  have load: "loadResult [?B, ?A, ?C] s
     = Inr (s\<lparr>editorText := utf16 ''C'' @ [0x0A] @ utf16 ''A B'',
              history := \<lparr>stack = [utf16 ''C'' @ [0x0A] @ utf16 ''A B''], index = 0\<rparr>,
              hasEditedSinceLoad := False\<rparr>)"
    by (simp only: loadResult_def rec sum.case)
  from sortY lines sortX rec load show ?thesis
    by (intro conjI)
qed

end
